theory Spec2Isabelle
  imports Complex_Main "HOL-Library.Word"
begin

unbundle bit_operations_syntax

section \<open>The wav2msu codec (docs/index.js)\<close>

text \<open>
  The embedding follows \<^verbatim>\<open>docs/index.js\<close>. The \<^verbatim>\<open>ArrayBuffer\<close> objects live in a store (a
  list of byte lists; a buffer is named by its index), because the codec returns typed
  arrays that share the bytes of the buffer they were made from. A \<^verbatim>\<open>DataView\<close> and a
  \<^verbatim>\<open>Uint16Array\<close> are windows (buffer, offset, length) onto a buffer of the store. A
  function that writes takes the store and returns the new one; a function that only
  reads returns its value. An exception is the \<open>Inl\<close> of a sum. JavaScript Numbers that
  are lengths and offsets are \<open>nat\<close>; the ones the code divides are \<open>rat\<close> (every Number
  the codec forms is an integer or a half, a thousandth for one message, far below
  \<open>2^53\<close>, where doubles are exact).
\<close>

subsection \<open>Values and errors\<close>

type_synonym byte = "8 word"
type_synonym u16 = "16 word"
type_synonym u32 = "32 word"
type_synonym ArrayBuffer = "byte list"
type_synonym heap = "ArrayBuffer list"

text \<open>
  \<^verbatim>\<open>WavError\<close> and \<^verbatim>\<open>MsuError\<close> are the two classes of the module, with their message.
  \<open>RangeError\<close> is what \<^verbatim>\<open>DataView\<close> and the typed-array constructor throw on an
  offset or length out of bounds (its message is the engine's). \<open>Error\<close> is the
  \<^verbatim>\<open>new Error(...)\<close> that \<^verbatim>\<open>rawPcmToWav\<close> rethrows.
\<close>

datatype error = WavError string | MsuError string | RangeError | Error

definition bind :: "error + 'a \<Rightarrow> ('a \<Rightarrow> error + 'b) \<Rightarrow> error + 'b" where
  "bind m f = (case m of Inl e \<Rightarrow> Inl e | Inr x \<Rightarrow> f x)"

text \<open>\<^verbatim>\<open>(new Uint8Array(n)).buffer\<close>: a new buffer of \<open>n\<close> zero bytes.\<close>

definition alloc :: "heap \<Rightarrow> nat \<Rightarrow> heap \<times> nat" where
  "alloc h n = (h @ [replicate n 0], length h)"

subsection \<open>Numbers\<close>

text \<open>\<^verbatim>\<open>ToIntegerOrInfinity\<close>: truncation towards zero.\<close>

definition ToInteger :: "rat \<Rightarrow> int" where
  "ToInteger x = (if 0 \<le> x then \<lfloor>x\<rfloor> else \<lceil>x\<rceil>)"

text \<open>\<^verbatim>\<open>ToUint32\<close>, applied by \<^verbatim>\<open>setUint32\<close> to its value: truncate, then modulo \<open>2^32\<close>.\<close>

definition ToUint32 :: "rat \<Rightarrow> u32" where
  "ToUint32 x = word_of_int (ToInteger x)"

text \<open>\<^verbatim>\<open>ToIndex\<close>, applied by the typed-array constructor to its length.\<close>

definition ToIndex :: "rat \<Rightarrow> error + nat" where
  "ToIndex x = (if ToInteger x < 0 then Inl RangeError else Inr (nat (ToInteger x)))"

text \<open>Template literals print a Number in decimal.\<close>

definition digit :: "nat \<Rightarrow> char" where
  "digit d = char_of (48 + d)"

function decimal :: "nat \<Rightarrow> string" where
  "decimal n = (if n < 10 then [digit n] else decimal (n div 10) @ [digit (n mod 10)])"
  by pat_completeness auto
termination
  by (relation "measure (\<lambda>n. n)") auto

declare decimal.simps [simp del]

text \<open>
  \<open>halves n\<close> prints the Number \<open>n / 2\<close> and \<open>thousandths n\<close> the Number \<open>n / 1000\<close>, for
  a natural \<open>n\<close>: the integer part, and the fraction without its trailing zeros.
\<close>

definition halves :: "nat \<Rightarrow> string" where
  "halves n = (if even n then decimal (n div 2) else decimal (n div 2) @ ''.5'')"

definition thousandths :: "nat \<Rightarrow> string" where
  "thousandths n =
     (let q = n div 1000; r = n mod 1000 in
      if r = 0 then decimal q
      else if r mod 100 = 0 then decimal q @ ''.'' @ [digit (r div 100)]
      else if r mod 10 = 0 then decimal q @ ''.'' @ [digit (r div 100), digit (r div 10 mod 10)]
      else decimal q @ ''.'' @ [digit (r div 100), digit (r div 10 mod 10), digit (r mod 10)])"

subsection \<open>DataView\<close>

record DataView =
  buffer :: nat
  byteOffset :: nat
  byteLength :: nat

text \<open>\<^verbatim>\<open>new DataView(buffer)\<close> and \<^verbatim>\<open>new DataView(buffer, byteOffset, byteLength)\<close>.\<close>

definition DataView_of :: "heap \<Rightarrow> nat \<Rightarrow> DataView" where
  "DataView_of h b = \<lparr>buffer = b, byteOffset = 0, byteLength = length (h ! b)\<rparr>"

definition DataView_new :: "heap \<Rightarrow> nat \<Rightarrow> nat \<Rightarrow> nat \<Rightarrow> error + DataView" where
  "DataView_new h b ofs len =
     (if length (h ! b) < ofs \<or> length (h ! b) < ofs + len then Inl RangeError
      else Inr \<lparr>buffer = b, byteOffset = ofs, byteLength = len\<rparr>)"

definition getUint8 :: "heap \<Rightarrow> DataView \<Rightarrow> nat \<Rightarrow> error + nat" where
  "getUint8 h view i =
     (if byteLength view < i + 1 then Inl RangeError
      else Inr (unat (h ! buffer view ! (byteOffset view + i))))"

definition getUint16 :: "heap \<Rightarrow> DataView \<Rightarrow> nat \<Rightarrow> bool \<Rightarrow> error + nat" where
  "getUint16 h view i littleEndian =
     (if byteLength view < i + 2 then Inl RangeError
      else
        let b0 = unat (h ! buffer view ! (byteOffset view + i));
            b1 = unat (h ! buffer view ! (byteOffset view + i + 1))
        in Inr (if littleEndian then b0 + 256 * b1 else 256 * b0 + b1))"

definition getUint32 :: "heap \<Rightarrow> DataView \<Rightarrow> nat \<Rightarrow> bool \<Rightarrow> error + nat" where
  "getUint32 h view i littleEndian =
     (if byteLength view < i + 4 then Inl RangeError
      else
        let b0 = unat (h ! buffer view ! (byteOffset view + i));
            b1 = unat (h ! buffer view ! (byteOffset view + i + 1));
            b2 = unat (h ! buffer view ! (byteOffset view + i + 2));
            b3 = unat (h ! buffer view ! (byteOffset view + i + 3))
        in Inr (if littleEndian then b0 + 256 * b1 + 65536 * b2 + 16777216 * b3
                else 16777216 * b0 + 65536 * b1 + 256 * b2 + b3))"

text \<open>The bytes of a 16-bit and of a 32-bit value, least significant first.\<close>

definition bytes16 :: "u16 \<Rightarrow> byte list" where
  "bytes16 v = [ucast v, ucast (drop_bit 8 v)]"

definition bytes32 :: "u32 \<Rightarrow> byte list" where
  "bytes32 v = [ucast v, ucast (drop_bit 8 v), ucast (drop_bit 16 v), ucast (drop_bit 24 v)]"

text \<open>
  \<open>store buf k bs\<close> overwrites the bytes of \<open>buf\<close> from index \<open>k\<close> with \<open>bs\<close>, and
  \<open>writeBytes h view i bs\<close> does so in the buffer of \<open>view\<close>, at offset \<open>i\<close> of the view.
\<close>

fun store :: "ArrayBuffer \<Rightarrow> nat \<Rightarrow> byte list \<Rightarrow> ArrayBuffer" where
  "store buf k [] = buf"
| "store buf k (b # bs) = store (buf[k := b]) (Suc k) bs"

definition writeBytes :: "heap \<Rightarrow> DataView \<Rightarrow> nat \<Rightarrow> byte list \<Rightarrow> heap" where
  "writeBytes h view i bs = h[buffer view := store (h ! buffer view) (byteOffset view + i) bs]"

definition setUint8 :: "heap \<Rightarrow> DataView \<Rightarrow> nat \<Rightarrow> byte \<Rightarrow> error + heap" where
  "setUint8 h view i v =
     (if byteLength view < i + 1 then Inl RangeError else Inr (writeBytes h view i [v]))"

definition setUint16 :: "heap \<Rightarrow> DataView \<Rightarrow> nat \<Rightarrow> u16 \<Rightarrow> bool \<Rightarrow> error + heap" where
  "setUint16 h view i v littleEndian =
     (if byteLength view < i + 2 then Inl RangeError
      else Inr (writeBytes h view i (if littleEndian then bytes16 v else rev (bytes16 v))))"

definition setUint32 :: "heap \<Rightarrow> DataView \<Rightarrow> nat \<Rightarrow> u32 \<Rightarrow> bool \<Rightarrow> error + heap" where
  "setUint32 h view i v littleEndian =
     (if byteLength view < i + 4 then Inl RangeError
      else Inr (writeBytes h view i (if littleEndian then bytes32 v else rev (bytes32 v))))"

subsection \<open>getString and putString\<close>

text \<open>
  \<^verbatim>\<open>getString(view, offset, length)\<close>: the loop over \<open>i = offset, ..., offset + length - 1\<close>
  pushes \<^verbatim>\<open>String.fromCharCode(view.getUint8(i))\<close>.
\<close>

fun getString :: "heap \<Rightarrow> DataView \<Rightarrow> nat \<Rightarrow> nat \<Rightarrow> error + string" where
  "getString h view i 0 = Inr []"
| "getString h view i (Suc n) =
     bind (getUint8 h view i) (\<lambda>c.
     bind (getString h view (Suc i) n) (\<lambda>cs. Inr (char_of c # cs)))"

text \<open>
  \<^verbatim>\<open>putString(view, offset, string)\<close>: character \<open>index\<close> goes to \<open>offset + index\<close>, as
  \<^verbatim>\<open>setUint8\<close> of its char code.
\<close>

fun putString :: "heap \<Rightarrow> DataView \<Rightarrow> nat \<Rightarrow> string \<Rightarrow> error + heap" where
  "putString h view ofs [] = Inr h"
| "putString h view ofs (c # cs) =
     bind (setUint8 h view ofs (of_nat (of_char c))) (\<lambda>h'. putString h' view (Suc ofs) cs)"

subsection \<open>Uint16Array\<close>

text \<open>
  \<^verbatim>\<open>new Uint16Array(buffer, byteOffset, length)\<close> is a window of \<open>length\<close> 16-bit elements
  onto the buffer. The constructor throws a \<^verbatim>\<open>RangeError\<close> on an odd offset, on a negative
  length, and when the window passes the end of the buffer; it truncates a fractional
  length.
\<close>

record Uint16Array =
  ta_buffer :: nat
  ta_byteOffset :: nat
  ta_length :: nat

definition ta_byteLength :: "Uint16Array \<Rightarrow> nat" where
  "ta_byteLength a = 2 * ta_length a"

definition Uint16Array_new :: "heap \<Rightarrow> nat \<Rightarrow> nat \<Rightarrow> rat \<Rightarrow> error + Uint16Array" where
  "Uint16Array_new h b ofs len =
     (if ofs mod 2 \<noteq> 0 then Inl RangeError
      else bind (ToIndex len) (\<lambda>n.
        if length (h ! b) < ofs + n * 2 then Inl RangeError
        else Inr \<lparr>ta_buffer = b, ta_byteOffset = ofs, ta_length = n\<rparr>))"

text \<open>
  The elements of a typed array are read and written in the byte order of the platform:
  \<open>littleEndian\<close> is \<open>True\<close> on a little-endian platform. \<open>element\<close> is \<^verbatim>\<open>a[i]\<close> for an
  index below the length, \<open>elements\<close> the sequence of all of them.
\<close>

definition word16 :: "byte \<Rightarrow> byte \<Rightarrow> u16" where
  "word16 lo hi = ucast lo OR push_bit 8 (ucast hi)"

definition element :: "bool \<Rightarrow> heap \<Rightarrow> Uint16Array \<Rightarrow> nat \<Rightarrow> u16" where
  "element littleEndian h a i =
     (let b0 = h ! ta_buffer a ! (ta_byteOffset a + i * 2);
          b1 = h ! ta_buffer a ! (ta_byteOffset a + i * 2 + 1)
      in if littleEndian then word16 b0 b1 else word16 b1 b0)"

definition elements :: "bool \<Rightarrow> heap \<Rightarrow> Uint16Array \<Rightarrow> u16 list" where
  "elements littleEndian h a = map (element littleEndian h a) [0..<ta_length a]"

text \<open>
  The assignment \<^verbatim>\<open>a[i] = v\<close>, which JavaScript allows on every typed array: it stores
  into the underlying buffer (an index outside the array is ignored). The codec never
  uses it; what it returns can be written this way by its caller.
\<close>

definition assign :: "bool \<Rightarrow> heap \<Rightarrow> Uint16Array \<Rightarrow> nat \<Rightarrow> u16 \<Rightarrow> heap" where
  "assign littleEndian h a i v =
     (if ta_length a \<le> i then h
      else h[ta_buffer a := store (h ! ta_buffer a) (ta_byteOffset a + i * 2)
               (if littleEndian then bytes16 v else rev (bytes16 v))])"

text \<open>A typed array of the store: its buffer exists and holds its window.\<close>

definition valid :: "heap \<Rightarrow> Uint16Array \<Rightarrow> bool" where
  "valid h a = (ta_buffer a < length h \<and> even (ta_byteOffset a) \<and>
     ta_byteOffset a + 2 * ta_length a \<le> length (h ! ta_buffer a))"

subsection \<open>parseWavFile\<close>

text \<open>
  \<^verbatim>\<open>.trim()\<close> strips JavaScript white space from both ends (among the char codes below
  256: tab, line feed, vertical tab, form feed, carriage return, space, no-break space);
  \<^verbatim>\<open>.replace(/\0/g, '')\<close> then deletes every NUL.
\<close>

definition whiteSpace :: "char \<Rightarrow> bool" where
  "whiteSpace c = (of_char c \<in> {9, 10, 11, 12, 13, 32, 160 :: nat})"

definition trim :: "string \<Rightarrow> string" where
  "trim s = rev (dropWhile whiteSpace (rev (dropWhile whiteSpace s)))"

definition chunkName :: "string \<Rightarrow> string" where
  "chunkName s = filter (\<lambda>c. of_char c \<noteq> (0 :: nat)) (trim s)"

lemma bind_cong [fundef_cong]:
  "m = m' \<Longrightarrow> (\<And>x. m' = Inr x \<Longrightarrow> f x = f' x) \<Longrightarrow> bind m f = bind m' f'"
  by (simp add: bind_def split: sum.splits)

text \<open>
  The \<^verbatim>\<open>while (pos < view.byteLength)\<close> loop of \<^verbatim>\<open>parseWavFile\<close>; \<open>view\<close> is the view of
  the whole of \<open>wavBuffer\<close>.
\<close>

function walkChunks ::
  "heap \<Rightarrow> nat \<Rightarrow> DataView \<Rightarrow> nat \<Rightarrow> (string \<rightharpoonup> DataView) \<Rightarrow> error + (string \<rightharpoonup> DataView)" where
  "walkChunks h wavBuffer view pos chunks =
     (if pos < byteLength view then
        bind (getString h view pos 4) (\<lambda>name.
        bind (getUint32 h view (pos + 4) True) (\<lambda>len.
        bind (DataView_new h wavBuffer (pos + 8) len) (\<lambda>chunk.
          walkChunks h wavBuffer view (pos + (len + 8)) (chunks(chunkName name \<mapsto> chunk)))))
      else Inr chunks)"
  by pat_completeness auto
termination
  by (relation "measure (\<lambda>(h, wavBuffer, view, pos, chunks). byteLength view - pos)") auto

declare walkChunks.simps [simp del]

definition parseWavFile :: "heap \<Rightarrow> nat \<Rightarrow> error + (string \<rightharpoonup> DataView)" where
  "parseWavFile h wavBuffer =
     (let view = DataView_of h wavBuffer in
      bind (getString h view 0 4) (\<lambda>m0.
      bind (getString h view 8 4) (\<lambda>m8.
      let magic = m0 @ ''/'' @ m8 in
      if magic \<noteq> ''RIFF/WAVE'' then
        Inl (WavError (''Not a WAV file; expected RIFF/WAVE, got '' @ [CHR 0x22] @ magic @ [CHR 0x22]))
      else
        bind (getUint32 h view 4 True) (\<lambda>recorded.
        let size = recorded + 8 in
        if size \<noteq> byteLength view then
          Inl (WavError (''File size ('' @ decimal (byteLength view) @
                 '') differs from recorded data size ('' @ decimal size @ ''); giving up''))
        else walkChunks h wavBuffer view 12 Map.empty))))"

subsection \<open>parseFMT\<close>

record Fmt =
  formatTag :: nat
  channels :: nat
  samplesPerSec :: nat
  avgBytesPerSec :: nat
  blockAlign :: nat
  bitsPerSample :: nat

definition parseFMT :: "heap \<Rightarrow> DataView \<Rightarrow> error + Fmt" where
  "parseFMT h view =
     bind (getUint16 h view 0 True) (\<lambda>a.
     bind (getUint16 h view 2 True) (\<lambda>b.
     bind (getUint32 h view 4 True) (\<lambda>c.
     bind (getUint32 h view 8 True) (\<lambda>d.
     bind (getUint16 h view 12 True) (\<lambda>e.
     bind (getUint16 h view 14 True) (\<lambda>f.
       Inr \<lparr>formatTag = a, channels = b, samplesPerSec = c, avgBytesPerSec = d,
            blockAlign = e, bitsPerSample = f\<rparr>))))))"

subsection \<open>wavBufferToRawPcm\<close>

definition wavBufferToRawPcm :: "heap \<Rightarrow> nat \<Rightarrow> error + Uint16Array" where
  "wavBufferToRawPcm h wavBuffer =
     bind (parseWavFile h wavBuffer) (\<lambda>chunks.
     case chunks ''fmt'' of
       None \<Rightarrow> Inl (WavError (''no '' @ [CHR 0x22] @ ''fmt'' @ [CHR 0x22] @ '' chunk''))
     | Some fmtChunk \<Rightarrow>
     bind (parseFMT h fmtChunk) (\<lambda>fmt.
     if formatTag fmt \<noteq> 1 then
       Inl (WavError (''Format should be PCM (1); got '' @ decimal (formatTag fmt)))
     else if channels fmt \<noteq> 2 then
       Inl (WavError (''Expected 2 channels; got '' @ decimal (channels fmt)))
     else if samplesPerSec fmt \<noteq> 44100 then
       Inl (WavError (''Expected a rate of 44.1 kHz; got '' @ thousandths (samplesPerSec fmt) @ '' kHz''))
     else if bitsPerSample fmt \<noteq> 16 then
       Inl (WavError (''Expected 16-bit samples, got '' @ decimal (bitsPerSample fmt)))
     else
       case chunks ''data'' of
         None \<Rightarrow> Inl (WavError (''no '' @ [CHR 0x22] @ ''data'' @ [CHR 0x22] @ '' chunk''))
       | Some dataChunk \<Rightarrow>
           Uint16Array_new h wavBuffer (byteOffset dataChunk)
             (of_nat (byteLength dataChunk) * 8 / of_nat (bitsPerSample fmt))))"

subsection \<open>rawPcmToMsu\<close>

text \<open>
  The destructured options are the arguments \<open>intro\<close> (\<open>None\<close> for the default
  \<^verbatim>\<open>null\<close>; an empty array is an object, hence truthy) and \<open>loop\<close>. \<open>platform\<close> is the
  byte order in which \<^verbatim>\<open>intro[i]\<close> and \<^verbatim>\<open>pcm[i]\<close> are read.

  The two \<^verbatim>\<open>for\<close> loops: element \<open>i\<close> of the array \<open>a\<close> goes to \<open>base + i * 2\<close>, for \<open>i\<close>
  up to the length (\<open>n\<close> elements are left). The intro loop calls \<^verbatim>\<open>setUint16\<close> with two
  arguments (\<open>littleEndian\<close> undefined, that is big-endian); the loop over \<^verbatim>\<open>pcm\<close>
  passes \<^verbatim>\<open>true\<close>.
\<close>

fun writeSamples ::
  "bool \<Rightarrow> heap \<Rightarrow> DataView \<Rightarrow> nat \<Rightarrow> bool \<Rightarrow> Uint16Array \<Rightarrow> nat \<Rightarrow> nat \<Rightarrow> error + heap" where
  "writeSamples platform h view base littleEndian a i 0 = Inr h"
| "writeSamples platform h view base littleEndian a i (Suc n) =
     bind (setUint16 h view (base + i * 2) (element platform h a i) littleEndian) (\<lambda>h'.
       writeSamples platform h' view base littleEndian a (Suc i) n)"

definition rawPcmToMsu ::
  "bool \<Rightarrow> heap \<Rightarrow> Uint16Array \<Rightarrow> Uint16Array option \<Rightarrow> rat \<Rightarrow> error + heap \<times> nat" where
  "rawPcmToMsu platform h pcm intro loop =
     (let loop = (case intro of Some a \<Rightarrow> of_nat (ta_length a) / 2 | None \<Rightarrow> loop);
          introOfs = 8 + (case intro of Some a \<Rightarrow> ta_byteLength a | None \<Rightarrow> 0);
          (h, out) = alloc h (introOfs + ta_byteLength pcm);
          view = DataView_of h out
      in
        bind (putString h view 0 ''MSU1'') (\<lambda>h.
        bind (setUint32 h view 4 (ToUint32 loop) True) (\<lambda>h.
        bind (case intro of
                Some a \<Rightarrow> writeSamples platform h view 8 False a 0 (ta_length a)
              | None \<Rightarrow> Inr h) (\<lambda>h.
        bind (writeSamples platform h view introOfs True pcm 0 (ta_length pcm)) (\<lambda>h.
        Inr (h, out))))))"

subsection \<open>msuToRawPcm\<close>

text \<open>
  The object \<^verbatim>\<open>msuToRawPcm\<close> returns: a property the object literal does not set is
  \<open>None\<close>. \<open>packLoop\<close> is \<open>False\<close> when the option is absent (undefined is falsy).
\<close>

record RawLoopedPCM =
  intro :: "Uint16Array option"
  loop :: Uint16Array
  loopPoint :: "nat option"

definition msuToRawPcm :: "heap \<Rightarrow> nat \<Rightarrow> bool \<Rightarrow> error + RawLoopedPCM" where
  "msuToRawPcm h msuBuffer packLoop =
     (let view = DataView_of h msuBuffer in
      bind (getString h view 0 4) (\<lambda>magic.
      if magic \<noteq> ''MSU1'' then Inl (MsuError ''Not an MSU1 file'')
      else
        bind (getUint32 h view 4 True) (\<lambda>loopPoint.
        let samples = (of_nat (length (h ! msuBuffer)) - 8) / 2 :: rat in
        if of_nat loopPoint > samples then
          Inl (MsuError (''Loop point ('' @ decimal loopPoint @
                 '') is larger than the number of samples in the file ('' @
                 halves (length (h ! msuBuffer) - 8) @ '')''))
        else if loopPoint = 0 \<or> packLoop then
          bind (Uint16Array_new h msuBuffer 8 samples) (\<lambda>l.
            Inr \<lparr>intro = None, loop = l, loopPoint = Some loopPoint\<rparr>)
        else
          bind (Uint16Array_new h msuBuffer 8 (of_nat loopPoint)) (\<lambda>i.
          bind (Uint16Array_new h msuBuffer (8 + loopPoint * 4) (samples - of_nat loopPoint * 2)) (\<lambda>l.
            Inr \<lparr>intro = Some i, loop = l, loopPoint = None\<rparr>)))))"

subsection \<open>rawPcmToWav\<close>

text \<open>
  The \<^verbatim>\<open>for\<close> loop of \<^verbatim>\<open>rawPcmToWav\<close>, with its running offset; what \<^verbatim>\<open>setUint16\<close> throws
  is caught and thrown again as an \<^verbatim>\<open>Error\<close>.
\<close>

fun writeWavSamples ::
  "bool \<Rightarrow> heap \<Rightarrow> DataView \<Rightarrow> nat \<Rightarrow> Uint16Array \<Rightarrow> nat \<Rightarrow> nat \<Rightarrow> error + heap" where
  "writeWavSamples platform h view ofs pcm i 0 = Inr h"
| "writeWavSamples platform h view ofs pcm i (Suc n) =
     (case setUint16 h view ofs (element platform h pcm i) True of
        Inl e \<Rightarrow> Inl Error
      | Inr h' \<Rightarrow> writeWavSamples platform h' view (ofs + 2) pcm (Suc i) n)"

definition rawPcmToWav :: "bool \<Rightarrow> heap \<Rightarrow> Uint16Array \<Rightarrow> error + heap \<times> nat" where
  "rawPcmToWav platform h pcm =
     (let size = 44 + ta_byteLength pcm;
          (h, wavFile) = alloc h size;
          view = DataView_of h wavFile
      in
        bind (putString h view 0 ''RIFF'') (\<lambda>h.
        bind (setUint32 h view 4 (ToUint32 (of_nat size - 8)) True) (\<lambda>h.
        bind (putString h view 8 ''WAVE'') (\<lambda>h.
        bind (putString h view 12 ''fmt '') (\<lambda>h.
        bind (setUint32 h view 16 16 True) (\<lambda>h.
        bind (setUint16 h view 20 1 True) (\<lambda>h.
        bind (setUint16 h view 22 2 True) (\<lambda>h.
        bind (setUint32 h view 24 44100 True) (\<lambda>h.
        bind (setUint32 h view 28 (ToUint32 (44100 * 16 * 2 / 8)) True) (\<lambda>h.
        bind (setUint16 h view 32 4 True) (\<lambda>h.
        bind (setUint16 h view 34 16 True) (\<lambda>h.
        bind (putString h view 36 ''data'') (\<lambda>h.
        bind (setUint32 h view 40 (ToUint32 (of_nat (ta_byteLength pcm))) True) (\<lambda>h.
        bind (writeWavSamples platform h view 44 pcm 0 (ta_length pcm)) (\<lambda>h.
        Inr (h, wavFile))))))))))))))))"

section \<open>Properties\<close>

subsection \<open>Bytes, numbers and stores\<close>

lemma bind_Inr [simp]: "bind (Inr x) f = f x"
  by (simp add: bind_def)

lemma bind_Inl [simp]: "bind (Inl e) f = Inl e"
  by (simp add: bind_def)

lemma length_store [simp]: "length (store buf k bs) = length buf"
  by (induction bs arbitrary: buf k) auto

lemma store_append: "store buf k (as @ bs) = store (store buf k as) (k + length as) bs"
  by (induction as arbitrary: buf k) auto

lemma store_store: "k' = k + length as \<Longrightarrow> store (store z k as) k' bs = store z k (as @ bs)"
  by (simp add: store_append)

lemma store_all: "length bs = length buf \<Longrightarrow> store (pre @ buf) (length pre) bs = pre @ bs"
proof (induction bs arbitrary: buf pre)
  case Nil
  then show ?case by simp
next
  case (Cons b bs)
  then obtain c cs where buf: "buf = c # cs" and len: "length bs = length cs"
    by (cases buf) auto
  have "store ((pre @ [b]) @ cs) (length (pre @ [b])) bs = (pre @ [b]) @ bs"
    using len by (rule Cons.IH)
  then show ?case by (simp add: buf)
qed

lemma store_whole: "length bs = length buf \<Longrightarrow> store buf 0 bs = bs"
  using store_all [of bs buf "[]"] by simp

lemma length_bytes16 [simp]: "length (bytes16 v) = 2"
  by (simp add: bytes16_def)

lemma length_bytes32 [simp]: "length (bytes32 v) = 4"
  by (simp add: bytes32_def)

lemma word16_bytes16: "word16 (ucast (v::u16)) (ucast (drop_bit 8 v)) = v"
  unfolding word16_def
  by (rule bit_word_eqI) (auto simp add: bit_simps)

lemma unat_bytes16:
  "unat (ucast (v::u16) :: byte) + 256 * unat (ucast (drop_bit 8 v) :: byte) = unat v"
proof -
  have "unat v < 65536" using unsigned_less [of v, where ?'a = nat] by simp
  then show ?thesis
    by (simp add: unsigned_ucast_eq unat_drop_bit_eq take_bit_eq_mod drop_bit_eq_div unat_div)
qed

lemma unat_low: "unat (ucast (v::u16) :: byte) = unat v mod 256"
  by (simp add: unsigned_ucast_eq take_bit_eq_mod)

lemma unat_high: "unat (ucast (drop_bit 8 v) :: byte) = unat v div 256" for v :: u16
proof -
  have "unat v < 65536" using unsigned_less [of v, where ?'a = nat] by simp
  then show ?thesis
    by (simp add: unsigned_ucast_eq unat_drop_bit_eq take_bit_eq_mod drop_bit_eq_div unat_div)
qed

lemma nat_bytes4:
  "(n::nat) mod 256 + 256 * (n div 256 mod 256) + 65536 * (n div 65536 mod 256)
     + 16777216 * (n div 16777216) = n"
proof -
  have a: "n div 65536 = n div 256 div 256" and b: "n div 16777216 = n div 256 div 256 div 256"
    by (simp_all add: div_mult2_eq)
  show ?thesis
    unfolding a b
    using div_mult_mod_eq [of n 256] div_mult_mod_eq [of "n div 256" 256]
      div_mult_mod_eq [of "n div 256 div 256" 256]
    by linarith
qed

lemma unat_bytes32:
  "unat (ucast (v::u32) :: byte) + 256 * unat (ucast (drop_bit 8 v) :: byte)
     + 65536 * unat (ucast (drop_bit 16 v) :: byte)
     + 16777216 * unat (ucast (drop_bit 24 v) :: byte) = unat v"
proof -
  have "unat v < 4294967296" using unsigned_less [of v, where ?'a = nat] by simp
  then show ?thesis
    by (simp add: unsigned_ucast_eq unat_drop_bit_eq take_bit_eq_mod drop_bit_eq_div unat_div nat_bytes4)
qed

definition encode16 :: "bool \<Rightarrow> u16 \<Rightarrow> byte list" where
  "encode16 littleEndian v = (if littleEndian then bytes16 v else rev (bytes16 v))"

lemma length_encode16 [simp]: "length (encode16 le v) = 2"
  by (simp add: encode16_def bytes16_def)

definition charCodes :: "string \<Rightarrow> byte list" where
  "charCodes s = map (\<lambda>c. of_nat (of_char c)) s"

lemma length_charCodes [simp]: "length (charCodes s) = length s"
  by (simp add: charCodes_def)

definition fromCharCodes :: "byte list \<Rightarrow> string" where
  "fromCharCodes bs = map (\<lambda>b. char_of (unat b)) bs"

lemma length_fromCharCodes [simp]: "length (fromCharCodes bs) = length bs"
  by (simp add: fromCharCodes_def)

lemma charCodes_fromCharCodes [simp]: "charCodes (fromCharCodes bs) = bs"
proof -
  have "(of_nat (of_char (char_of (unat b) :: char)) :: byte) = b" for b :: byte
    using unsigned_less [of b, where ?'a = nat] by simp
  then show ?thesis
    by (simp add: charCodes_def fromCharCodes_def comp_def)
qed

lemma fromCharCodes_charCodes [simp]: "fromCharCodes (charCodes s) = s"
proof -
  have "char_of (unat (of_nat (of_char c) :: byte)) = c" for c :: char
    by (simp add: unat_of_nat)
  then show ?thesis
    by (simp add: charCodes_def fromCharCodes_def comp_def)
qed

lemma fromCharCodes_neq: "bs \<noteq> charCodes s \<Longrightarrow> fromCharCodes bs \<noteq> s"
  by (metis charCodes_fromCharCodes)

lemma ToInteger_of_nat [simp]: "ToInteger (of_nat n) = int n"
  by (simp add: ToInteger_def)

lemma ToUint32_of_nat: "ToUint32 (of_nat n) = of_nat n"
  by (simp add: ToUint32_def)

lemma ToIndex_of_nat [simp]: "ToIndex (of_nat n) = Inr n"
  by (simp add: ToIndex_def)

lemma ToIndex_half: "ToIndex (rat_of_nat n / 2) = Inr (n div 2)"
proof -
  have "\<lfloor>rat_of_nat n / rat_of_nat 2\<rfloor> = int (n div 2)"
    by (simp only: floor_divide_of_nat_eq)
  then have "\<lfloor>rat_of_nat n / 2\<rfloor> = int (n div 2)"
    by simp
  moreover have "0 \<le> rat_of_nat n / 2"
    by simp
  ultimately show ?thesis
    by (simp only: ToIndex_def ToInteger_def) simp
qed

lemma unat_ToUint32: "n < 2 ^ 32 \<Longrightarrow> unat (ToUint32 (of_nat n)) = n"
  by (simp add: ToUint32_of_nat unat_of_nat)

lemma digits:
  "digit 0 = CHR ''0''" "digit (Suc 0) = CHR ''1''" "digit 2 = CHR ''2''" "digit 3 = CHR ''3''"
  "digit 4 = CHR ''4''" "digit 5 = CHR ''5''" "digit 6 = CHR ''6''" "digit 7 = CHR ''7''"
  "digit 8 = CHR ''8''" "digit 9 = CHR ''9''"
  by code_simp+

subsection \<open>What the encoders write\<close>

text \<open>
  An encoder allocates a buffer and fills it through a view of the whole of it. Each
  write lands in the new buffer, the last of the store; in the end the buffer is the
  concatenation of what was written.
\<close>

lemma DataView_of_fresh:
  "DataView_of (h @ [z]) (length h) = \<lparr>buffer = length h, byteOffset = 0, byteLength = length z\<rparr>"
  by (simp add: DataView_of_def)

lemma writeBytes_fresh:
  "buffer view = length h \<Longrightarrow> byteOffset view = 0 \<Longrightarrow>
   writeBytes (h @ [buf]) view i bs = h @ [store buf i bs]"
  by (simp add: writeBytes_def)

lemma setUint8_fresh:
  "buffer view = length h \<Longrightarrow> byteOffset view = 0 \<Longrightarrow> i + 1 \<le> byteLength view \<Longrightarrow>
   setUint8 (h @ [buf]) view i v = Inr (h @ [store buf i [v]])"
  by (simp add: setUint8_def writeBytes_fresh)

lemma setUint16_fresh:
  "buffer view = length h \<Longrightarrow> byteOffset view = 0 \<Longrightarrow> i + 2 \<le> byteLength view \<Longrightarrow>
   setUint16 (h @ [buf]) view i v le = Inr (h @ [store buf i (encode16 le v)])"
  by (simp add: setUint16_def writeBytes_fresh encode16_def)

lemma setUint32_fresh:
  "buffer view = length h \<Longrightarrow> byteOffset view = 0 \<Longrightarrow> i + 4 \<le> byteLength view \<Longrightarrow>
   setUint32 (h @ [buf]) view i v True = Inr (h @ [store buf i (bytes32 v)])"
  by (simp add: setUint32_def writeBytes_fresh)

lemma putString_fresh:
  "buffer view = length h \<Longrightarrow> byteOffset view = 0 \<Longrightarrow> ofs + length s \<le> byteLength view \<Longrightarrow>
   putString (h @ [buf]) view ofs s = Inr (h @ [store buf ofs (charCodes s)])"
  by (induction s arbitrary: buf ofs) (simp_all add: setUint8_fresh charCodes_def)

lemma element_fresh:
  "ta_buffer a < length h \<Longrightarrow> element p (h @ [buf]) a i = element p h a i"
  by (simp add: element_def nth_append)

definition encodeFrom :: "bool \<Rightarrow> bool \<Rightarrow> heap \<Rightarrow> Uint16Array \<Rightarrow> nat \<Rightarrow> nat \<Rightarrow> byte list" where
  "encodeFrom le p h a i n = concat (map (\<lambda>j. encode16 le (element p h a j)) [i..<i + n])"

lemma encodeFrom_Suc:
  "encodeFrom le p h a i (Suc n) = encode16 le (element p h a i) @ encodeFrom le p h a (Suc i) n"
  by (simp add: encodeFrom_def upt_conv_Cons del: upt_Suc)

lemma length_encodeFrom [simp]: "length (encodeFrom le p h a i n) = 2 * n"
  by (induction n arbitrary: i) (simp_all add: encodeFrom_Suc, simp add: encodeFrom_def)

lemma encodeFrom_elements:
  "encodeFrom le p h a 0 (ta_length a) = concat (map (encode16 le) (elements p h a))"
  by (simp add: encodeFrom_def elements_def comp_def)

lemma nth_encodeFrom:
  "i < n \<Longrightarrow> encodeFrom le p h a k n ! (i * 2) = encode16 le (element p h a (k + i)) ! 0 \<and>
     encodeFrom le p h a k n ! (i * 2 + 1) = encode16 le (element p h a (k + i)) ! 1"
proof (induction n arbitrary: i k)
  case 0
  then show ?case by simp
next
  case (Suc n)
  show ?case
  proof (cases i)
    case 0
    then show ?thesis by (simp add: encodeFrom_Suc nth_append)
  next
    case (Suc j)
    then have "j < n" using Suc.prems by simp
    from Suc.IH [OF this, of "Suc k"] show ?thesis
      by (simp add: encodeFrom_Suc nth_append Suc)
  qed
qed

lemma writeSamples_fresh:
  "buffer view = length h \<Longrightarrow> byteOffset view = 0 \<Longrightarrow> ta_buffer a < length h \<Longrightarrow>
   base + 2 * (i + n) \<le> byteLength view \<Longrightarrow>
   writeSamples p (h @ [buf]) view base le a i n =
     Inr (h @ [store buf (base + i * 2) (encodeFrom le p h a i n)])"
proof (induction n arbitrary: buf i)
  case 0
  then show ?case by (simp add: encodeFrom_def)
next
  case (Suc n)
  have "writeSamples p (h @ [buf]) view base le a i (Suc n) =
        writeSamples p (h @ [store buf (base + i * 2) (encode16 le (element p h a i))])
          view base le a (Suc i) n"
    using Suc.prems by (simp add: setUint16_fresh element_fresh)
  also have "\<dots> = Inr (h @ [store (store buf (base + i * 2) (encode16 le (element p h a i)))
                      (base + Suc i * 2) (encodeFrom le p h a (Suc i) n)])"
    using Suc.prems by (intro Suc.IH) simp_all
  finally show ?case
    by (simp add: encodeFrom_Suc store_append)
qed

lemma writeWavSamples_fresh:
  "buffer view = length h \<Longrightarrow> byteOffset view = 0 \<Longrightarrow> ta_buffer a < length h \<Longrightarrow>
   ofs + 2 * n \<le> byteLength view \<Longrightarrow>
   writeWavSamples p (h @ [buf]) view ofs a i n =
     Inr (h @ [store buf ofs (encodeFrom True p h a i n)])"
proof (induction n arbitrary: buf i ofs)
  case 0
  then show ?case by (simp add: encodeFrom_def)
next
  case (Suc n)
  have "writeWavSamples p (h @ [buf]) view ofs a i (Suc n) =
        writeWavSamples p (h @ [store buf ofs (encode16 True (element p h a i))])
          view (ofs + 2) a (Suc i) n"
    using Suc.prems by (simp add: setUint16_fresh element_fresh)
  also have "\<dots> = Inr (h @ [store (store buf ofs (encode16 True (element p h a i)))
                      (ofs + 2) (encodeFrom True p h a (Suc i) n)])"
    using Suc.prems by (intro Suc.IH) simp_all
  finally show ?case
    by (simp add: encodeFrom_Suc store_append)
qed

definition msuImage :: "bool \<Rightarrow> heap \<Rightarrow> Uint16Array \<Rightarrow> Uint16Array option \<Rightarrow> rat \<Rightarrow> byte list" where
  "msuImage p h pcm intr lp =
     charCodes ''MSU1'' @
     bytes32 (ToUint32 (case intr of Some a \<Rightarrow> of_nat (ta_length a) / 2 | None \<Rightarrow> lp)) @
     (case intr of Some a \<Rightarrow> encodeFrom False p h a 0 (ta_length a) | None \<Rightarrow> []) @
     encodeFrom True p h pcm 0 (ta_length pcm)"

lemma rawPcmToMsu_None:
  assumes "ta_buffer pcm < length h"
  shows "rawPcmToMsu p h pcm None lp = Inr (h @ [msuImage p h pcm None lp], length h)"
  using assms
  by (simp add: rawPcmToMsu_def alloc_def DataView_of_fresh ta_byteLength_def
      putString_fresh setUint32_fresh writeSamples_fresh store_store store_whole msuImage_def Let_def del: putString.simps)

lemma rawPcmToMsu_Some:
  assumes "ta_buffer pcm < length h" and "ta_buffer a < length h"
  shows "rawPcmToMsu p h pcm (Some a) lp = Inr (h @ [msuImage p h pcm (Some a) lp], length h)"
  using assms
  by (simp add: rawPcmToMsu_def alloc_def DataView_of_fresh ta_byteLength_def
      putString_fresh setUint32_fresh writeSamples_fresh store_store store_whole msuImage_def Let_def del: putString.simps)

definition wavImage :: "bool \<Rightarrow> heap \<Rightarrow> Uint16Array \<Rightarrow> byte list" where
  "wavImage p h pcm =
     charCodes ''RIFF'' @ bytes32 (ToUint32 (of_nat (44 + ta_byteLength pcm) - 8)) @
     charCodes ''WAVE'' @ charCodes ''fmt '' @ bytes32 16 @ bytes16 1 @ bytes16 2 @
     bytes32 44100 @ bytes32 (ToUint32 (44100 * 16 * 2 / 8)) @ bytes16 4 @ bytes16 16 @
     charCodes ''data'' @ bytes32 (ToUint32 (of_nat (ta_byteLength pcm))) @
     encodeFrom True p h pcm 0 (ta_length pcm)"

lemma rawPcmToWav_eq:
  assumes "ta_buffer pcm < length h"
  shows "rawPcmToWav p h pcm = Inr (h @ [wavImage p h pcm], length h)"
  using assms
  by (simp add: rawPcmToWav_def alloc_def DataView_of_fresh ta_byteLength_def
      putString_fresh setUint32_fresh setUint16_fresh encode16_def
      writeWavSamples_fresh store_store store_whole wavImage_def Let_def del: putString.simps)

subsection \<open>What the decoders read\<close>

lemma getString_eq:
  "i + n \<le> byteLength view \<Longrightarrow> byteOffset view + byteLength view \<le> length (h ! buffer view) \<Longrightarrow>
   getString h view i n = Inr (fromCharCodes (take n (drop (byteOffset view + i) (h ! buffer view))))"
proof (induction n arbitrary: i)
  case 0
  then show ?case by (simp add: fromCharCodes_def)
next
  case (Suc n)
  have lt: "byteOffset view + i < length (h ! buffer view)"
    using Suc.prems by simp
  have "getString h view (Suc i) n =
        Inr (fromCharCodes (take n (drop (byteOffset view + Suc i) (h ! buffer view))))"
    using Suc.prems by (intro Suc.IH) simp_all
  moreover have "getUint8 h view i = Inr (unat (h ! buffer view ! (byteOffset view + i)))"
    using Suc.prems by (simp add: getUint8_def)
  ultimately show ?case
    using lt by (simp add: fromCharCodes_def flip: Cons_nth_drop_Suc)
qed

lemma getString_whole:
  "i + n \<le> length (h ! b) \<Longrightarrow>
   getString h (DataView_of h b) i n = Inr (fromCharCodes (take n (drop i (h ! b))))"
  using getString_eq [of i n "DataView_of h b" h] by (simp add: DataView_of_def)

lemma getString_RangeError:
  "byteLength view < i + n \<Longrightarrow> 0 < n \<Longrightarrow> getString h view i n = Inl RangeError"
proof (induction n arbitrary: i)
  case 0
  then show ?case by simp
next
  case (Suc n)
  show ?case
  proof (cases "byteLength view < i + 1")
    case True
    then show ?thesis by (simp add: getUint8_def)
  next
    case False
    have "getString h view (Suc i) n = Inl RangeError"
      using Suc.prems False by (intro Suc.IH) simp_all
    then show ?thesis using False by (simp add: getUint8_def)
  qed
qed

lemma nth_take_drop: "k < n \<Longrightarrow> i + k < length xs \<Longrightarrow> take n (drop i xs) ! k = xs ! (i + k)"
  by simp

lemma take_drop_within:
  "i + n \<le> m \<Longrightarrow> take n (drop (k + i) xs) = take n (drop i (take m (drop k xs)))"
  by (simp add: drop_take add.commute min_def)

lemma getUint32_eq:
  assumes "i + 4 \<le> byteLength view"
    and "byteOffset view + byteLength view \<le> length (h ! buffer view)"
    and "take 4 (drop (byteOffset view + i) (h ! buffer view)) = bytes32 w"
  shows "getUint32 h view i True = Inr (unat w)"
proof -
  let ?xs = "h ! buffer view" and ?k = "byteOffset view + i"
  have nth: "?xs ! (?k + j) = bytes32 w ! j" if "j < 4" for j
    using that assms nth_take_drop [of j 4 ?k ?xs] by simp
  have "?xs ! ?k = bytes32 w ! 0" using nth [of 0] by simp
  moreover have "?xs ! (?k + 1) = bytes32 w ! 1" using nth [of 1] by simp
  moreover have "?xs ! (?k + 2) = bytes32 w ! 2" using nth [of 2] by simp
  moreover have "?xs ! (?k + 3) = bytes32 w ! 3" using nth [of 3] by simp
  ultimately show ?thesis
    using assms(1) unat_bytes32 [of w] by (simp add: getUint32_def bytes32_def)
qed

lemma getUint16_eq:
  assumes "i + 2 \<le> byteLength view"
    and "byteOffset view + byteLength view \<le> length (h ! buffer view)"
    and "take 2 (drop (byteOffset view + i) (h ! buffer view)) = bytes16 w"
  shows "getUint16 h view i True = Inr (unat w)"
proof -
  let ?xs = "h ! buffer view" and ?k = "byteOffset view + i"
  have nth: "?xs ! (?k + j) = bytes16 w ! j" if "j < 2" for j
    using that assms nth_take_drop [of j 2 ?k ?xs] by simp
  have "?xs ! ?k = bytes16 w ! 0" using nth [of 0] by simp
  moreover have "?xs ! (?k + 1) = bytes16 w ! 1" using nth [of 1] by simp
  ultimately show ?thesis
    using assms(1) unat_bytes16 [of w] by (simp add: getUint16_def bytes16_def)
qed

lemma element_of_image:
  assumes "h' ! ta_buffer t = pre @ encodeFrom True p h a 0 n @ post"
    and "ta_byteOffset t = length pre" and "i < n"
  shows "element True h' t i = element p h a i"
proof -
  have "(pre @ encodeFrom True p h a 0 n @ post) ! (length pre + i * 2) = ucast (element p h a i)"
    and "(pre @ encodeFrom True p h a 0 n @ post) ! (length pre + i * 2 + 1) =
           ucast (drop_bit 8 (element p h a i))"
    using assms(3) nth_encodeFrom [of i n True p h a 0]
    by (simp_all add: nth_append encode16_def bytes16_def)
  then show ?thesis
    using assms(1,2) by (simp add: element_def word16_bytes16)
qed

lemma elements_of_image:
  assumes "h' ! ta_buffer t = pre @ encodeFrom True p h a 0 (ta_length a) @ post"
    and "ta_byteOffset t = length pre" and "ta_length t = ta_length a"
  shows "elements True h' t = elements p h a"
  using assms by (simp add: elements_def element_of_image)

lemma Uint16Array_new_of_nat:
  "even ofs \<Longrightarrow> ofs + n * 2 \<le> length (h ! b) \<Longrightarrow>
   Uint16Array_new h b ofs (of_nat n) = Inr \<lparr>ta_buffer = b, ta_byteOffset = ofs, ta_length = n\<rparr>"
  by (simp add: Uint16Array_new_def)

lemma Uint16Array_new_buffer:
  "Uint16Array_new h b ofs len = Inr a \<Longrightarrow> ta_buffer a = b"
  by (auto simp add: Uint16Array_new_def ToIndex_def bind_def split: if_splits)

lemma DataView_new_ok:
  "ofs + len \<le> length (h ! b) \<Longrightarrow>
   DataView_new h b ofs len = Inr \<lparr>buffer = b, byteOffset = ofs, byteLength = len\<rparr>"
  by (simp add: DataView_new_def)

text \<open>\<^verbatim>\<open>msuToRawPcm\<close> on a buffer that starts with the magic and a loop point.\<close>

lemma msuToRawPcm_image:
  assumes img: "h ! b = charCodes ''MSU1'' @ bytes32 w @ body"
  shows "msuToRawPcm h b packLoop =
     (let loopPoint = unat w; samples = rat_of_nat (length body) / 2 in
      if of_nat loopPoint > samples then
        Inl (MsuError (''Loop point ('' @ decimal loopPoint @
               '') is larger than the number of samples in the file ('' @
               halves (length body) @ '')''))
      else if loopPoint = 0 \<or> packLoop then
        bind (Uint16Array_new h b 8 samples) (\<lambda>l.
          Inr \<lparr>intro = None, loop = l, loopPoint = Some loopPoint\<rparr>)
      else
        bind (Uint16Array_new h b 8 (of_nat loopPoint)) (\<lambda>i.
        bind (Uint16Array_new h b (8 + loopPoint * 4) (samples - of_nat loopPoint * 2)) (\<lambda>l.
          Inr \<lparr>intro = Some i, loop = l, loopPoint = None\<rparr>)))"
proof -
  let ?view = "DataView_of h b"
  have magic: "getString h ?view 0 4 = Inr ''MSU1''"
    by (subst getString_eq) (simp_all add: DataView_of_def img)
  have lp: "getUint32 h ?view 4 True = Inr (unat w)"
    by (rule getUint32_eq) (simp_all add: DataView_of_def img)
  have len: "length (h ! b) = 8 + length body"
    by (simp add: img)
  show ?thesis
    unfolding msuToRawPcm_def Let_def magic lp len by simp
qed

text \<open>
  \<^verbatim>\<open>parseWavFile\<close>, \<^verbatim>\<open>parseFMT\<close> and \<^verbatim>\<open>wavBufferToRawPcm\<close> on a buffer laid out as a
  canonical WAVE file: the RIFF header, a \<^verbatim>\<open>fmt\<close> chunk of 16 bytes, a \<^verbatim>\<open>data\<close> chunk.
\<close>

lemma chunkName_fmt: "chunkName ''fmt '' = ''fmt''"
  by (simp add: chunkName_def trim_def whiteSpace_def)

lemma chunkName_data: "chunkName ''data'' = ''data''"
  by (simp add: chunkName_def trim_def whiteSpace_def)

lemma walkChunks_done: "byteLength view \<le> pos \<Longrightarrow> walkChunks h b view pos c = Inr c"
  by (subst walkChunks.simps) simp

lemma parseWavFile_layout:
  assumes img: "h ! b = charCodes ''RIFF'' @ bytes32 sz @ charCodes ''WAVE'' @
      charCodes ''fmt '' @ bytes32 16 @ fb @ charCodes ''data'' @ bytes32 dl @ body"
    and fb: "length fb = 16" and sz: "unat sz = 36 + length body" and dl: "unat dl = length body"
  shows "parseWavFile h b =
     Inr [''fmt'' \<mapsto> \<lparr>buffer = b, byteOffset = 20, byteLength = 16\<rparr>,
          ''data'' \<mapsto> \<lparr>buffer = b, byteOffset = 44, byteLength = length body\<rparr>]"
proof -
  let ?view = "DataView_of h b"
  let ?n = "length body"
  have len: "length (h ! b) = 44 + ?n"
    by (simp add: img fb)
  have view: "?view = \<lparr>buffer = b, byteOffset = 0, byteLength = 44 + ?n\<rparr>"
    by (simp add: DataView_of_def len)
  have bl: "byteLength ?view = 44 + ?n"
    by (simp add: view)
  have riff: "getString h ?view 0 4 = Inr ''RIFF''"
    by (subst getString_whole) (simp_all add: len, simp add: img)
  have wave: "getString h ?view 8 4 = Inr ''WAVE''"
    by (subst getString_whole) (simp_all add: len, simp add: img)
  have fmt: "getString h ?view 12 4 = Inr ''fmt ''"
    by (subst getString_whole) (simp_all add: len, simp add: img)
  have data: "getString h ?view 36 4 = Inr ''data''"
    by (subst getString_whole) (simp_all add: len, simp add: img fb)
  have size: "getUint32 h ?view 4 True = Inr (36 + ?n)"
    using getUint32_eq [of 4 ?view h sz] by (simp add: view len img sz fb)
  have fmtLen: "getUint32 h ?view 16 True = Inr 16"
    using getUint32_eq [of 16 ?view h 16] by (simp add: view len img fb)
  have dataLen: "getUint32 h ?view 40 True = Inr ?n"
    using getUint32_eq [of 40 ?view h dl] by (simp add: view len img fb dl)
  have second: "walkChunks h b ?view 36 c =
      Inr (c(''data'' \<mapsto> \<lparr>buffer = b, byteOffset = 44, byteLength = ?n\<rparr>))" for c
    by (subst walkChunks.simps)
      (simp add: data dataLen DataView_new_ok len chunkName_data walkChunks_done bl)
  have first: "walkChunks h b ?view 12 Map.empty =
      Inr [''fmt'' \<mapsto> \<lparr>buffer = b, byteOffset = 20, byteLength = 16\<rparr>,
           ''data'' \<mapsto> \<lparr>buffer = b, byteOffset = 44, byteLength = ?n\<rparr>]"
    by (subst walkChunks.simps)
      (simp add: fmt fmtLen DataView_new_ok len chunkName_fmt second bl)
  show ?thesis
    unfolding parseWavFile_def Let_def riff wave size
    by (simp add: first bl)
qed

lemma parseFMT_layout:
  assumes bl: "byteLength v = 16" and fits: "byteOffset v + 16 \<le> length (h ! buffer v)"
    and body: "take 16 (drop (byteOffset v) (h ! buffer v)) =
        bytes16 a @ bytes16 c @ bytes32 r @ bytes32 d @ bytes16 e @ bytes16 f"
  shows "parseFMT h v =
     Inr \<lparr>formatTag = unat a, channels = unat c, samplesPerSec = unat r,
          avgBytesPerSec = unat d, blockAlign = unat e, bitsPerSample = unat f\<rparr>"
proof -
  have at: "take n (drop (byteOffset v + i) (h ! buffer v)) =
      take n (drop i (bytes16 a @ bytes16 c @ bytes32 r @ bytes32 d @ bytes16 e @ bytes16 f))"
    if "i + n \<le> 16" for i n
    using take_drop_within [OF that, of "byteOffset v" "h ! buffer v"] by (simp only: body)
  have a: "getUint16 h v 0 True = Inr (unat a)"
    using at [of 0 2] fits by (intro getUint16_eq) (simp_all add: bl)
  have c: "getUint16 h v 2 True = Inr (unat c)"
    using at [of 2 2] fits by (intro getUint16_eq) (simp_all add: bl)
  have r: "getUint32 h v 4 True = Inr (unat r)"
    using at [of 4 4] fits by (intro getUint32_eq) (simp_all add: bl)
  have d: "getUint32 h v 8 True = Inr (unat d)"
    using at [of 8 4] fits by (intro getUint32_eq) (simp_all add: bl)
  have e: "getUint16 h v 12 True = Inr (unat e)"
    using at [of 12 2] fits by (intro getUint16_eq) (simp_all add: bl)
  have f: "getUint16 h v 14 True = Inr (unat f)"
    using at [of 14 2] fits by (intro getUint16_eq) (simp_all add: bl)
  show ?thesis
    by (simp add: parseFMT_def a c r d e f)
qed

lemma wavBufferToRawPcm_layout:
  assumes img: "h ! b = charCodes ''RIFF'' @ bytes32 sz @ charCodes ''WAVE'' @
      charCodes ''fmt '' @ bytes32 16 @
      (bytes16 1 @ bytes16 2 @ bytes32 44100 @ bytes32 d @ bytes16 e @ bytes16 16) @
      charCodes ''data'' @ bytes32 dl @ body"
    and sz: "unat sz = 36 + length body" and dl: "unat dl = length body"
  shows "wavBufferToRawPcm h b =
     Inr \<lparr>ta_buffer = b, ta_byteOffset = 44, ta_length = length body div 2\<rparr>"
proof -
  let ?view = "\<lparr>buffer = b, byteOffset = 20, byteLength = 16\<rparr>"
  have len: "length (h ! b) = 44 + length body"
    by (simp add: img)
  have chunks: "parseWavFile h b =
     Inr [''fmt'' \<mapsto> ?view,
          ''data'' \<mapsto> \<lparr>buffer = b, byteOffset = 44, byteLength = length body\<rparr>]"
    using img _ sz dl by (rule parseWavFile_layout) simp
  have "parseFMT h ?view =
     Inr \<lparr>formatTag = unat (1 :: u16), channels = unat (2 :: u16),
          samplesPerSec = unat (44100 :: u32), avgBytesPerSec = unat d,
          blockAlign = unat e, bitsPerSample = unat (16 :: u16)\<rparr>"
    by (rule parseFMT_layout) (simp_all add: len, simp add: img)
  then have fmt: "parseFMT h ?view =
     Inr \<lparr>formatTag = 1, channels = 2, samplesPerSec = 44100, avgBytesPerSec = unat d,
          blockAlign = unat e, bitsPerSample = 16\<rparr>"
    by simp
  have "44 + length body div 2 * 2 \<le> length (h ! b)"
    by (simp add: len)
  then have "Uint16Array_new h b 44 (rat_of_nat (length body) * 8 / rat_of_nat 16) =
      Inr \<lparr>ta_buffer = b, ta_byteOffset = 44, ta_length = length body div 2\<rparr>"
    by (simp add: Uint16Array_new_def ToIndex_half)
  then show ?thesis
    unfolding wavBufferToRawPcm_def chunks by (simp add: fmt)
qed

lemma wav_example:
  "wavBufferToRawPcm [[0x52, 0x49, 0x46, 0x46, 44, 0, 0, 0, 0x57, 0x41, 0x56, 0x45,
       0x66, 0x6D, 0x74, 0x20, 16, 0, 0, 0,
       1, 0, 2, 0, 0x44, 0xAC, 0, 0, 0x10, 0xB1, 2, 0, 4, 0, 16, 0,
       0x64, 0x61, 0x74, 0x61, 8, 0, 0, 0,
       1, 0, 2, 0, 3, 0, 4, 0]] 0 = Inr \<lparr>ta_buffer = 0, ta_byteOffset = 44, ta_length = 4\<rparr>"
proof -
  let ?h = "[[0x52, 0x49, 0x46, 0x46, 44, 0, 0, 0, 0x57, 0x41, 0x56, 0x45,
       0x66, 0x6D, 0x74, 0x20, 16, 0, 0, 0,
       1, 0, 2, 0, 0x44, 0xAC, 0, 0, 0x10, 0xB1, 2, 0, 4, 0, 16, 0,
       0x64, 0x61, 0x74, 0x61, 8, 0, 0, 0,
       1, 0, 2, 0, 3, 0, 4, 0] :: byte list]"
  have img: "?h ! 0 = charCodes ''RIFF'' @ bytes32 44 @ charCodes ''WAVE'' @
      charCodes ''fmt '' @ bytes32 16 @
      (bytes16 1 @ bytes16 2 @ bytes32 44100 @ bytes32 176400 @ bytes16 4 @ bytes16 16) @
      charCodes ''data'' @ bytes32 8 @ [1, 0, 2, 0, 3, 0, 4, 0]"
    by (simp add: charCodes_def bytes32_def bytes16_def)
  show ?thesis
    using wavBufferToRawPcm_layout [OF img] by simp
qed

subsection \<open>Round trips\<close>

text \<open>
  Claim C1. For a PCM array \<open>p\<close>, \<^verbatim>\<open>wavBufferToRawPcm(rawPcmToWav(p))\<close> succeeds and
  returns an array with the elements of \<open>p\<close>. The platform is little-endian, and the
  file (44 bytes and two per element) is one a RIFF header can describe: its length
  less 8 fits the 32-bit size field.
\<close>

theorem wav_roundtrip:
  assumes "valid h p" and "2 * ta_length p + 36 < 2 ^ 32"
  shows "\<exists>h' wav a. rawPcmToWav True h p = Inr (h', wav) \<and>
           wavBufferToRawPcm h' wav = Inr a \<and>
           elements True h' a = elements True h p"
proof -
  let ?n = "ta_length p"
  let ?body = "encodeFrom True True h p 0 ?n"
  let ?h' = "h @ [wavImage True h p]"
  let ?a = "\<lparr>ta_buffer = length h, ta_byteOffset = 44, ta_length = ?n\<rparr>"
  have enc: "rawPcmToWav True h p = Inr (?h', length h)"
    using assms(1) by (simp add: rawPcmToWav_eq valid_def)
  have img: "?h' ! length h =
      charCodes ''RIFF'' @ bytes32 (ToUint32 (of_nat (44 + ta_byteLength p) - 8)) @
      charCodes ''WAVE'' @ charCodes ''fmt '' @ bytes32 16 @
      (bytes16 1 @ bytes16 2 @ bytes32 44100 @ bytes32 (ToUint32 (44100 * 16 * 2 / 8)) @
       bytes16 4 @ bytes16 16) @
      charCodes ''data'' @ bytes32 (ToUint32 (of_nat (ta_byteLength p))) @ ?body"
    by (simp add: wavImage_def)
  have eq: "rat_of_nat (44 + ta_byteLength p) - 8 = of_nat (36 + 2 * ?n)"
    by (simp add: ta_byteLength_def)
  have "unat (ToUint32 (of_nat (36 + 2 * ?n))) = 36 + 2 * ?n"
    using assms(2) by (intro unat_ToUint32) simp
  then have sz: "unat (ToUint32 (of_nat (44 + ta_byteLength p) - 8)) = 36 + length ?body"
    by (simp only: eq length_encodeFrom)
  have "unat (ToUint32 (of_nat (ta_byteLength p))) = 2 * ?n"
    using assms(2) unat_ToUint32 [of "ta_byteLength p"] by (simp only: ta_byteLength_def)
  then have dl: "unat (ToUint32 (of_nat (ta_byteLength p))) = length ?body"
    by (simp only: length_encodeFrom)
  have dec: "wavBufferToRawPcm ?h' (length h) = Inr ?a"
    using wavBufferToRawPcm_layout [OF img sz dl] by simp
  have "elements True ?h' ?a = elements True h p"
    by (rule elements_of_image [where post = "[]" and pre =
          "charCodes ''RIFF'' @ bytes32 (ToUint32 (of_nat (44 + ta_byteLength p) - 8)) @
           charCodes ''WAVE'' @ charCodes ''fmt '' @ bytes32 16 @ bytes16 1 @ bytes16 2 @
           bytes32 44100 @ bytes32 (ToUint32 (44100 * 16 * 2 / 8)) @ bytes16 4 @ bytes16 16 @
           charCodes ''data'' @ bytes32 (ToUint32 (of_nat (ta_byteLength p)))"])
      (simp_all add: wavImage_def)
  with enc dec show ?thesis
    by (intro exI [of _ ?h'] exI [of _ "length h"] exI [of _ ?a]) simp
qed

theorem wav_roundtrip_witness:
  "valid [[10, 0, 20, 0, 30, 0, 40, 0]] \<lparr>ta_buffer = 0, ta_byteOffset = 0, ta_length = 4\<rparr> \<and>
   (\<exists>h' wav a.
      rawPcmToWav True [[10, 0, 20, 0, 30, 0, 40, 0]]
        \<lparr>ta_buffer = 0, ta_byteOffset = 0, ta_length = 4\<rparr> = Inr (h', wav) \<and>
      wavBufferToRawPcm h' wav = Inr a \<and>
      elements True h' a = [10, 20, 30, 40])"
proof -
  let ?h = "[[10, 0, 20, 0, 30, 0, 40, 0 :: byte]]"
  let ?p = "\<lparr>ta_buffer = 0, ta_byteOffset = 0, ta_length = 4\<rparr>"
  have v: "valid ?h ?p" by (simp add: valid_def)
  have e: "elements True ?h ?p = [10, 20, 30, 40]"
    by code_simp
  from wav_roundtrip [OF v] v e show ?thesis
    by simp
qed

text \<open>
  Claim C2. For a PCM array \<open>p\<close> and a loop index \<open>n\<close> with \<open>n \<le> p.length / 2\<close>,
  \<^verbatim>\<open>msuToRawPcm(rawPcmToMsu(p, { loop: n }), { packLoop: true })\<close> succeeds, its \<open>loop\<close>
  has the elements of \<open>p\<close> and its \<open>loopPoint\<close> is \<open>n\<close>. The platform is
  little-endian, and \<open>n\<close> fits the 32-bit field of the header, which a \<open>p\<close> of fewer
  than \<open>2^33\<close> elements ensures.
\<close>

theorem msu_packLoop_roundtrip:
  assumes "valid h p" and "2 * n \<le> ta_length p" and "n < 2 ^ 32"
  shows "\<exists>h' msu r. rawPcmToMsu True h p None (of_nat n) = Inr (h', msu) \<and>
           msuToRawPcm h' msu True = Inr r \<and>
           elements True h' (loop r) = elements True h p \<and> loopPoint r = Some n"
proof -
  let ?img = "msuImage True h p None (of_nat n)"
  let ?h' = "h @ [?img]"
  let ?r = "\<lparr>intro = None,
            loop = \<lparr>ta_buffer = length h, ta_byteOffset = 8, ta_length = ta_length p\<rparr>,
            loopPoint = Some n\<rparr>"
  have enc: "rawPcmToMsu True h p None (of_nat n) = Inr (?h', length h)"
    using assms(1) by (simp add: rawPcmToMsu_None valid_def)
  have img: "?h' ! length h =
      charCodes ''MSU1'' @ bytes32 (ToUint32 (of_nat n)) @ encodeFrom True True h p 0 (ta_length p)"
    by (simp add: msuImage_def)
  have dec: "msuToRawPcm ?h' (length h) True = Inr ?r"
    unfolding msuToRawPcm_image [OF img] using assms(2,3)
    by (simp add: unat_ToUint32 Uint16Array_new_of_nat msuImage_def)
  have "elements True ?h' (loop ?r) = elements True h p"
    by (rule elements_of_image [where pre = "charCodes ''MSU1'' @ bytes32 (ToUint32 (of_nat n))"
          and post = "[]"]) (simp_all add: msuImage_def)
  with enc dec show ?thesis
    by (intro exI [of _ ?h'] exI [of _ "length h"] exI [of _ ?r]) simp
qed

theorem msu_packLoop_roundtrip_witness:
  "valid [[10, 0, 20, 0, 30, 0, 40, 0]] \<lparr>ta_buffer = 0, ta_byteOffset = 0, ta_length = 4\<rparr> \<and>
   (\<exists>h' msu r.
      rawPcmToMsu True [[10, 0, 20, 0, 30, 0, 40, 0]]
        \<lparr>ta_buffer = 0, ta_byteOffset = 0, ta_length = 4\<rparr> None 1 = Inr (h', msu) \<and>
      msuToRawPcm h' msu True = Inr r \<and>
      elements True h' (loop r) = [10, 20, 30, 40] \<and> loopPoint r = Some 1)"
proof -
  let ?h = "[[10, 0, 20, 0, 30, 0, 40, 0 :: byte]]"
  let ?p = "\<lparr>ta_buffer = 0, ta_byteOffset = 0, ta_length = 4\<rparr>"
  have v: "valid ?h ?p" by (simp add: valid_def)
  have e: "elements True ?h ?p = [10, 20, 30, 40]"
    by code_simp
  from msu_packLoop_roundtrip [OF v, of 1] v e show ?thesis
    by simp
qed

text \<open>
  Claim C3 says that \<^verbatim>\<open>rawPcmToMsu(loop, { intro })\<close> followed by \<^verbatim>\<open>msuToRawPcm\<close> returns
  the intro, the loop and \<open>loopPoint = intro.length / 2\<close>. The code, on the intro
  \<open>[1, 2]\<close> and the loop \<open>[10, 20, 30, 40]\<close>, on a little-endian platform: the intro is
  written big-endian (bytes \<open>00 01 00 02\<close>) and read back as an array of length 1 in
  the byte order of the platform, so it comes back as \<open>[256]\<close>; the loop comes back as
  it was; the object has no \<open>loopPoint\<close>.
\<close>

theorem msu_intro_roundtrip_evaluation:
  "rawPcmToMsu True [[10, 0, 20, 0, 30, 0, 40, 0], [1, 0, 2, 0]]
     \<lparr>ta_buffer = 0, ta_byteOffset = 0, ta_length = 4\<rparr>
     (Some \<lparr>ta_buffer = 1, ta_byteOffset = 0, ta_length = 2\<rparr>) 0 =
     Inr ([[10, 0, 20, 0, 30, 0, 40, 0], [1, 0, 2, 0],
           [0x4D, 0x53, 0x55, 0x31, 1, 0, 0, 0, 0, 1, 0, 2, 10, 0, 20, 0, 30, 0, 40, 0]], 2) \<and>
   msuToRawPcm [[10, 0, 20, 0, 30, 0, 40, 0], [1, 0, 2, 0],
       [0x4D, 0x53, 0x55, 0x31, 1, 0, 0, 0, 0, 1, 0, 2, 10, 0, 20, 0, 30, 0, 40, 0]] 2 False =
     Inr \<lparr>intro = Some \<lparr>ta_buffer = 2, ta_byteOffset = 8, ta_length = 1\<rparr>,
          loop = \<lparr>ta_buffer = 2, ta_byteOffset = 12, ta_length = 4\<rparr>,
          loopPoint = None\<rparr> \<and>
   elements True [[10, 0, 20, 0, 30, 0, 40, 0], [1, 0, 2, 0]]
     \<lparr>ta_buffer = 1, ta_byteOffset = 0, ta_length = 2\<rparr> = [1, 2] \<and>
   elements True [[10, 0, 20, 0, 30, 0, 40, 0], [1, 0, 2, 0],
       [0x4D, 0x53, 0x55, 0x31, 1, 0, 0, 0, 0, 1, 0, 2, 10, 0, 20, 0, 30, 0, 40, 0]]
     \<lparr>ta_buffer = 2, ta_byteOffset = 8, ta_length = 1\<rparr> = [256] \<and>
   elements True [[10, 0, 20, 0, 30, 0, 40, 0], [1, 0, 2, 0],
       [0x4D, 0x53, 0x55, 0x31, 1, 0, 0, 0, 0, 1, 0, 2, 10, 0, 20, 0, 30, 0, 40, 0]]
     \<lparr>ta_buffer = 2, ta_byteOffset = 12, ta_length = 4\<rparr> = [10, 20, 30, 40]"
proof -
  let ?h = "[[10, 0, 20, 0, 30, 0, 40, 0], [1, 0, 2, 0 :: byte]]"
  let ?p = "\<lparr>ta_buffer = 0, ta_byteOffset = 0, ta_length = 4\<rparr>"
  let ?a = "\<lparr>ta_buffer = 1, ta_byteOffset = 0, ta_length = 2\<rparr>"
  let ?out = "[0x4D, 0x53, 0x55, 0x31, 1, 0, 0, 0, 0, 1, 0, 2, 10, 0, 20, 0, 30, 0, 40, 0 :: byte]"
  let ?h' = "[[10, 0, 20, 0, 30, 0, 40, 0], [1, 0, 2, 0], ?out]"
  have a: "elements True ?h ?a = [1, 2]"
    by code_simp
  have ea: "encodeFrom False True ?h ?a 0 2 = [0, 1, 0, 2]"
    and ep: "encodeFrom True True ?h ?p 0 4 = [10, 0, 20, 0, 30, 0, 40, 0]"
    by code_simp+
  have "ToUint32 (rat_of_nat 2 / 2) = 1"
    by (simp add: ToUint32_def ToInteger_def)
  with ea ep have "msuImage True ?h ?p (Some ?a) 0 = ?out"
    by (simp add: msuImage_def charCodes_def bytes32_def)
  then have enc: "rawPcmToMsu True ?h ?p (Some ?a) 0 = Inr (?h', 2)"
    by (simp add: rawPcmToMsu_Some)
  have img: "?h' ! 2 = charCodes ''MSU1'' @ bytes32 1 @ [0, 1, 0, 2, 10, 0, 20, 0, 30, 0, 40, 0]"
    by (simp add: charCodes_def bytes32_def)
  have dec: "msuToRawPcm ?h' 2 False =
     Inr \<lparr>intro = Some \<lparr>ta_buffer = 2, ta_byteOffset = 8, ta_length = 1\<rparr>,
          loop = \<lparr>ta_buffer = 2, ta_byteOffset = 12, ta_length = 4\<rparr>,
          loopPoint = None\<rparr>"
    unfolding msuToRawPcm_image [OF img]
    by (simp add: Uint16Array_new_def ToIndex_def ToInteger_def)
  have i: "elements True ?h' \<lparr>ta_buffer = 2, ta_byteOffset = 8, ta_length = 1\<rparr> = [256]"
    and l: "elements True ?h' \<lparr>ta_buffer = 2, ta_byteOffset = 12, ta_length = 4\<rparr> = [10, 20, 30, 40]"
    by code_simp+
  from enc dec a i l show ?thesis
    by (intro conjI)
qed

subsection \<open>Splitting an MSU-1 file at its loop point\<close>

text \<open>
  Claim C4 says that \<^verbatim>\<open>msuToRawPcm\<close> without \<^verbatim>\<open>packLoop\<close>, on a buffer with loop point
  \<open>L > 0\<close>, returns \<open>loopPoint = L\<close>, an intro of the first \<open>2 L\<close> sample values and
  a loop of the values from byte \<open>8 + 4 L\<close> on. The code, on the 16-byte buffer with
  \<open>L = 1\<close> and the samples \<open>[10, 20, 30, 40]\<close>: the loop is \<open>[30, 40]\<close> as claimed, but
  the intro is made with length \<open>L\<close>, not \<open>2 L\<close>, so it is \<open>[10]\<close> and the sample
  \<open>20\<close> is in neither array; and the object has no \<open>loopPoint\<close>.
\<close>

theorem msuToRawPcm_split_evaluation:
  "msuToRawPcm [[0x4D, 0x53, 0x55, 0x31, 1, 0, 0, 0, 10, 0, 20, 0, 30, 0, 40, 0]] 0 False =
     Inr \<lparr>intro = Some \<lparr>ta_buffer = 0, ta_byteOffset = 8, ta_length = 1\<rparr>,
          loop = \<lparr>ta_buffer = 0, ta_byteOffset = 12, ta_length = 2\<rparr>,
          loopPoint = None\<rparr> \<and>
   elements True [[0x4D, 0x53, 0x55, 0x31, 1, 0, 0, 0, 10, 0, 20, 0, 30, 0, 40, 0]]
     \<lparr>ta_buffer = 0, ta_byteOffset = 8, ta_length = 1\<rparr> = [10] \<and>
   elements True [[0x4D, 0x53, 0x55, 0x31, 1, 0, 0, 0, 10, 0, 20, 0, 30, 0, 40, 0]]
     \<lparr>ta_buffer = 0, ta_byteOffset = 12, ta_length = 2\<rparr> = [30, 40]"
proof -
  let ?h = "[[0x4D, 0x53, 0x55, 0x31, 1, 0, 0, 0, 10, 0, 20, 0, 30, 0, 40, 0 :: byte]]"
  have img: "?h ! 0 = charCodes ''MSU1'' @ bytes32 1 @ [10, 0, 20, 0, 30, 0, 40, 0]"
    by (simp add: charCodes_def bytes32_def)
  have "msuToRawPcm ?h 0 False =
     Inr \<lparr>intro = Some \<lparr>ta_buffer = 0, ta_byteOffset = 8, ta_length = 1\<rparr>,
          loop = \<lparr>ta_buffer = 0, ta_byteOffset = 12, ta_length = 2\<rparr>,
          loopPoint = None\<rparr>"
    unfolding msuToRawPcm_image [OF img]
    by (simp add: Uint16Array_new_def ToIndex_def ToInteger_def)
  moreover have "elements True ?h \<lparr>ta_buffer = 0, ta_byteOffset = 8, ta_length = 1\<rparr> = [10]"
    by code_simp
  moreover have "elements True ?h \<lparr>ta_buffer = 0, ta_byteOffset = 12, ta_length = 2\<rparr> = [30, 40]"
    by code_simp
  ultimately show ?thesis
    by (intro conjI)
qed

text \<open>
  Claim C5 says that \<^verbatim>\<open>msuToRawPcm\<close> succeeds only when \<open>loopPoint * 2\<close> is at most the
  number \<open>(byteLength - 8) / 2\<close> of sample values, and throws an \<^verbatim>\<open>MsuError\<close> otherwise.
  The code compares \<open>loopPoint\<close> itself with that number. On the 16-byte buffer with
  loop point 3 (4 sample values, 2 frames) the check passes: with \<^verbatim>\<open>packLoop\<close> the call
  succeeds with \<open>loopPoint = 3\<close>; without it the loop array gets the length
  \<open>4 - 3 * 2\<close> and the typed-array constructor throws a \<^verbatim>\<open>RangeError\<close>.
\<close>

theorem msuToRawPcm_loop_bound_evaluation:
  "msuToRawPcm [[0x4D, 0x53, 0x55, 0x31, 3, 0, 0, 0, 10, 0, 20, 0, 30, 0, 40, 0]] 0 True =
     Inr \<lparr>intro = None, loop = \<lparr>ta_buffer = 0, ta_byteOffset = 8, ta_length = 4\<rparr>,
          loopPoint = Some 3\<rparr> \<and>
   msuToRawPcm [[0x4D, 0x53, 0x55, 0x31, 3, 0, 0, 0, 10, 0, 20, 0, 30, 0, 40, 0]] 0 False =
     Inl RangeError"
proof -
  let ?h = "[[0x4D, 0x53, 0x55, 0x31, 3, 0, 0, 0, 10, 0, 20, 0, 30, 0, 40, 0 :: byte]]"
  have img: "?h ! 0 = charCodes ''MSU1'' @ bytes32 3 @ [10, 0, 20, 0, 30, 0, 40, 0]"
    by (simp add: charCodes_def bytes32_def)
  have "msuToRawPcm ?h 0 True =
     Inr \<lparr>intro = None, loop = \<lparr>ta_buffer = 0, ta_byteOffset = 8, ta_length = 4\<rparr>,
          loopPoint = Some 3\<rparr>"
    unfolding msuToRawPcm_image [OF img]
    by (simp add: Uint16Array_new_def ToIndex_def ToInteger_def)
  moreover have "msuToRawPcm ?h 0 False = Inl RangeError"
    unfolding msuToRawPcm_image [OF img]
    by (simp add: Uint16Array_new_def ToIndex_def ToInteger_def)
  ultimately show ?thesis
    by (intro conjI)
qed

subsection \<open>Rejected buffers\<close>

lemma parseWavFile_magic:
  assumes len: "12 \<le> length (h ! b)" and bad: "take 4 (h ! b) \<noteq> charCodes ''RIFF''"
  shows "\<exists>m. parseWavFile h b = Inl (WavError m)"
proof -
  let ?m0 = "fromCharCodes (take 4 (h ! b))" and ?m8 = "fromCharCodes (take 4 (drop 8 (h ! b)))"
  have m0: "getString h (DataView_of h b) 0 4 = Inr ?m0"
    using len getString_whole [of 0 4 h b] by simp
  have m8: "getString h (DataView_of h b) 8 4 = Inr ?m8"
    using len getString_whole [of 8 4 h b] by simp
  have "?m0 \<noteq> ''RIFF''"
    using bad by (rule fromCharCodes_neq)
  moreover have "length ?m0 = length ''RIFF''"
    using len by simp
  ultimately have "?m0 @ ''/'' @ ?m8 \<noteq> ''RIFF'' @ ''/WAVE''"
    using append_eq_append_conv [of ?m0 "''RIFF''" "''/'' @ ?m8" "''/WAVE''"] by blast
  then show ?thesis
    unfolding parseWavFile_def Let_def m0 m8 by simp
qed

lemma parseWavFile_size:
  assumes len: "12 \<le> length (h ! b)" and field: "getUint32 h (DataView_of h b) 4 True = Inr s"
    and differs: "s + 8 \<noteq> length (h ! b)"
  shows "\<exists>m. parseWavFile h b = Inl (WavError m)"
proof -
  let ?m0 = "fromCharCodes (take 4 (h ! b))" and ?m8 = "fromCharCodes (take 4 (drop 8 (h ! b)))"
  have m0: "getString h (DataView_of h b) 0 4 = Inr ?m0"
    using len getString_whole [of 0 4 h b] by simp
  have m8: "getString h (DataView_of h b) 8 4 = Inr ?m8"
    using len getString_whole [of 8 4 h b] by simp
  show ?thesis
    unfolding parseWavFile_def Let_def m0 m8 field using differs
    by (simp add: DataView_of_def)
qed

text \<open>
  Claim C6, as amended. On a buffer of at least 12 bytes, \<^verbatim>\<open>wavBufferToRawPcm\<close> throws a
  \<^verbatim>\<open>WavError\<close> when bytes 0 to 3 are not \<^verbatim>\<open>RIFF\<close>, and when the recorded size (the
  little-endian 32-bit value at offset 4) plus 8 is not the length of the buffer. On a
  buffer that parses, whose \<^verbatim>\<open>fmt\<close> chunk decodes with format tag 1 and 1 channel, it
  throws the \<^verbatim>\<open>WavError\<close> with the message \<^verbatim>\<open>Expected 2 channels; got 1\<close>.
\<close>

theorem wavBufferToRawPcm_rejects:
  "(12 \<le> length (h ! b) \<and> take 4 (h ! b) \<noteq> charCodes ''RIFF'' \<longrightarrow>
      (\<exists>m. wavBufferToRawPcm h b = Inl (WavError m))) \<and>
   (12 \<le> length (h ! b) \<and> getUint32 h (DataView_of h b) 4 True = Inr s \<and>
    s + 8 \<noteq> length (h ! b) \<longrightarrow>
      (\<exists>m. wavBufferToRawPcm h b = Inl (WavError m))) \<and>
   (parseWavFile h b = Inr chunks \<and> chunks ''fmt'' = Some fmtChunk \<and>
    parseFMT h fmtChunk = Inr fmt \<and> formatTag fmt = 1 \<and> channels fmt = 1 \<longrightarrow>
      wavBufferToRawPcm h b = Inl (WavError ''Expected 2 channels; got 1''))"
proof (intro conjI impI; elim conjE)
  assume "12 \<le> length (h ! b)" and "take 4 (h ! b) \<noteq> charCodes ''RIFF''"
  then obtain m where "parseWavFile h b = Inl (WavError m)"
    using parseWavFile_magic by blast
  then show "\<exists>m. wavBufferToRawPcm h b = Inl (WavError m)"
    by (simp add: wavBufferToRawPcm_def)
next
  assume "12 \<le> length (h ! b)" and "getUint32 h (DataView_of h b) 4 True = Inr s"
    and "s + 8 \<noteq> length (h ! b)"
  then obtain m where "parseWavFile h b = Inl (WavError m)"
    using parseWavFile_size by blast
  then show "\<exists>m. wavBufferToRawPcm h b = Inl (WavError m)"
    by (simp add: wavBufferToRawPcm_def)
next
  assume "parseWavFile h b = Inr chunks" and "chunks ''fmt'' = Some fmtChunk"
    and "parseFMT h fmtChunk = Inr fmt" and "formatTag fmt = 1" and "channels fmt = 1"
  moreover have "decimal 1 = ''1''"
    by (simp add: decimal.simps digits)
  ultimately show "wavBufferToRawPcm h b = Inl (WavError ''Expected 2 channels; got 1'')"
    by (simp add: wavBufferToRawPcm_def)
qed

theorem wavBufferToRawPcm_rejects_witness:
  "(\<exists>m. wavBufferToRawPcm [[0x41, 0x42, 0x43, 0x44, 0, 0, 0, 0, 0, 0, 0, 0]] 0 =
      Inl (WavError m)) \<and>
   (\<exists>m. wavBufferToRawPcm
      [[0x52, 0x49, 0x46, 0x46, 0, 0, 0, 0, 0x57, 0x41, 0x56, 0x45]] 0 = Inl (WavError m)) \<and>
   wavBufferToRawPcm
     [[0x52, 0x49, 0x46, 0x46, 44, 0, 0, 0, 0x57, 0x41, 0x56, 0x45,
       0x66, 0x6D, 0x74, 0x20, 16, 0, 0, 0,
       1, 0, 1, 0, 0x44, 0xAC, 0, 0, 0x10, 0xB1, 2, 0, 4, 0, 16, 0,
       0x64, 0x61, 0x74, 0x61, 8, 0, 0, 0,
       1, 0, 2, 0, 3, 0, 4, 0]] 0 = Inl (WavError ''Expected 2 channels; got 1'')"
proof -
  let ?h1 = "[[0x41, 0x42, 0x43, 0x44, 0, 0, 0, 0, 0, 0, 0, 0 :: byte]]"
  let ?h2 = "[[0x52, 0x49, 0x46, 0x46, 0, 0, 0, 0, 0x57, 0x41, 0x56, 0x45 :: byte]]"
  let ?fb = "[1, 0, 1, 0, 0x44, 0xAC, 0, 0, 0x10, 0xB1, 2, 0, 4, 0, 16, 0 :: byte]"
  let ?body = "[1, 0, 2, 0, 3, 0, 4, 0 :: byte]"
  let ?h3 = "[[0x52, 0x49, 0x46, 0x46, 44, 0, 0, 0, 0x57, 0x41, 0x56, 0x45,
       0x66, 0x6D, 0x74, 0x20, 16, 0, 0, 0,
       1, 0, 1, 0, 0x44, 0xAC, 0, 0, 0x10, 0xB1, 2, 0, 4, 0, 16, 0,
       0x64, 0x61, 0x74, 0x61, 8, 0, 0, 0,
       1, 0, 2, 0, 3, 0, 4, 0 :: byte]]"
  let ?view = "\<lparr>buffer = 0, byteOffset = 20, byteLength = 16\<rparr>"
  let ?chunks = "[''fmt'' \<mapsto> ?view,
      ''data'' \<mapsto> \<lparr>buffer = 0, byteOffset = 44, byteLength = length ?body\<rparr>]"
  let ?fmt = "\<lparr>formatTag = unat (1 :: u16), channels = unat (1 :: u16),
      samplesPerSec = unat (44100 :: u32), avgBytesPerSec = unat (176400 :: u32),
      blockAlign = unat (4 :: u16), bitsPerSample = unat (16 :: u16)\<rparr>"
  have a: "12 \<le> length (?h1 ! 0) \<and> take 4 (?h1 ! 0) \<noteq> charCodes ''RIFF''"
    by (simp add: charCodes_def)
  have b: "12 \<le> length (?h2 ! 0) \<and> getUint32 ?h2 (DataView_of ?h2 0) 4 True = Inr 0 \<and>
      0 + 8 \<noteq> length (?h2 ! 0)"
    by (simp add: getUint32_def DataView_of_def)
  have img: "?h3 ! 0 = charCodes ''RIFF'' @ bytes32 44 @ charCodes ''WAVE'' @
      charCodes ''fmt '' @ bytes32 16 @ ?fb @ charCodes ''data'' @ bytes32 8 @ ?body"
    by (simp add: charCodes_def bytes32_def)
  have chunks: "parseWavFile ?h3 0 = Inr ?chunks"
    by (rule parseWavFile_layout [OF img]) simp_all
  have "take 16 (drop (byteOffset ?view) (?h3 ! buffer ?view)) =
      bytes16 1 @ bytes16 1 @ bytes32 44100 @ bytes32 176400 @ bytes16 4 @ bytes16 16"
    by (simp add: bytes16_def bytes32_def)
  then have fmt: "parseFMT ?h3 ?view = Inr ?fmt"
    by (intro parseFMT_layout) simp_all
  have c: "parseWavFile ?h3 0 = Inr ?chunks \<and> ?chunks ''fmt'' = Some ?view \<and>
      parseFMT ?h3 ?view = Inr ?fmt \<and> formatTag ?fmt = 1 \<and> channels ?fmt = 1"
    using chunks fmt by simp
  have "\<exists>m. wavBufferToRawPcm ?h1 0 = Inl (WavError m)"
    using wavBufferToRawPcm_rejects [of ?h1 0, THEN conjunct1] a by (rule mp)
  moreover have "\<exists>m. wavBufferToRawPcm ?h2 0 = Inl (WavError m)"
    using wavBufferToRawPcm_rejects [of ?h2 0 0, THEN conjunct2, THEN conjunct1] b by (rule mp)
  moreover have "wavBufferToRawPcm ?h3 0 = Inl (WavError ''Expected 2 channels; got 1'')"
    using wavBufferToRawPcm_rejects [of ?h3 0 _ ?chunks ?view ?fmt, THEN conjunct2, THEN conjunct2] c
    by (rule mp)
  ultimately show ?thesis
    by (intro conjI)
qed

text \<open>
  The claim as stated, for every buffer, fails on a short one: \<^verbatim>\<open>parseWavFile\<close> reads
  bytes 8 to 11 before it compares the magic, so on the 8 bytes \<^verbatim>\<open>ABCD\<close> and four zeros
  (bytes 0 to 3 are not \<^verbatim>\<open>RIFF\<close>) the \<^verbatim>\<open>DataView\<close> throws a \<^verbatim>\<open>RangeError\<close>.
\<close>

theorem wavBufferToRawPcm_short_counterexample:
  "take 4 [0x41, 0x42, 0x43, 0x44, 0, 0, 0, 0 :: byte] \<noteq> charCodes ''RIFF'' \<and>
   wavBufferToRawPcm [[0x41, 0x42, 0x43, 0x44, 0, 0, 0, 0]] 0 = Inl RangeError"
proof -
  let ?h = "[[0x41, 0x42, 0x43, 0x44, 0, 0, 0, 0 :: byte]]"
  have m0: "getString ?h (DataView_of ?h 0) 0 4 = Inr (fromCharCodes [0x41, 0x42, 0x43, 0x44])"
    using getString_whole [of 0 4 ?h 0] by simp
  have m8: "getString ?h (DataView_of ?h 0) 8 4 = Inl RangeError"
    by (rule getString_RangeError) (simp_all add: DataView_of_def)
  have "wavBufferToRawPcm ?h 0 = Inl RangeError"
    unfolding wavBufferToRawPcm_def parseWavFile_def Let_def m0 m8 by simp
  then show ?thesis
    by (simp add: charCodes_def)
qed

text \<open>
  Claim C7. \<^verbatim>\<open>msuToRawPcm\<close> throws an \<^verbatim>\<open>MsuError\<close> on a buffer whose first four bytes
  are not \<^verbatim>\<open>MSU1\<close> (\<^verbatim>\<open>MSU0\<close>, say), and on a 16-byte buffer with the right magic whose
  loop point, the little-endian 32-bit value at offset 4, is 1000000.
\<close>

theorem msuToRawPcm_rejects:
  "(4 \<le> length (h ! b) \<and> take 4 (h ! b) \<noteq> charCodes ''MSU1'' \<longrightarrow>
      msuToRawPcm h b packLoop = Inl (MsuError ''Not an MSU1 file'')) \<and>
   (length (h ! b) = 16 \<and> take 4 (h ! b) = charCodes ''MSU1'' \<and>
    getUint32 h (DataView_of h b) 4 True = Inr 1000000 \<longrightarrow>
      msuToRawPcm h b packLoop = Inl (MsuError
        ''Loop point (1000000) is larger than the number of samples in the file (4)''))"
proof (intro conjI impI; elim conjE)
  assume len: "4 \<le> length (h ! b)" and bad: "take 4 (h ! b) \<noteq> charCodes ''MSU1''"
  have "getString h (DataView_of h b) 0 4 = Inr (fromCharCodes (take 4 (h ! b)))"
    using len getString_whole [of 0 4 h b] by simp
  moreover have "fromCharCodes (take 4 (h ! b)) \<noteq> ''MSU1''"
    using bad by (rule fromCharCodes_neq)
  ultimately show "msuToRawPcm h b packLoop = Inl (MsuError ''Not an MSU1 file'')"
    by (simp add: msuToRawPcm_def)
next
  assume len: "length (h ! b) = 16" and magic: "take 4 (h ! b) = charCodes ''MSU1''"
    and lp: "getUint32 h (DataView_of h b) 4 True = Inr 1000000"
  have "getString h (DataView_of h b) 0 4 = Inr (fromCharCodes (take 4 (h ! b)))"
    using len getString_whole [of 0 4 h b] by simp
  then have m: "getString h (DataView_of h b) 0 4 = Inr ''MSU1''"
    by (simp only: magic fromCharCodes_charCodes)
  have d: "decimal 1000000 = ''1000000''" and hv: "halves 8 = ''4''"
    by (simp_all add: halves_def decimal.simps digits)
  show "msuToRawPcm h b packLoop = Inl (MsuError
        ''Loop point (1000000) is larger than the number of samples in the file (4)'')"
    unfolding msuToRawPcm_def Let_def m lp len
    by (simp add: d hv)
qed

theorem msuToRawPcm_rejects_witness:
  "msuToRawPcm [[0x4D, 0x53, 0x55, 0x30, 0, 0, 0, 0]] 0 False = Inl (MsuError ''Not an MSU1 file'') \<and>
   msuToRawPcm [[0x4D, 0x53, 0x55, 0x31, 0x40, 0x42, 0x0F, 0x00, 1, 0, 2, 0, 3, 0, 4, 0]] 0 False =
     Inl (MsuError ''Loop point (1000000) is larger than the number of samples in the file (4)'')"
proof -
  let ?bad = "[[0x4D, 0x53, 0x55, 0x30, 0, 0, 0, 0 :: byte]]"
  let ?big = "[[0x4D, 0x53, 0x55, 0x31, 0x40, 0x42, 0x0F, 0x00, 1, 0, 2, 0, 3, 0, 4, 0 :: byte]]"
  have a: "4 \<le> length (?bad ! 0) \<and> take 4 (?bad ! 0) \<noteq> charCodes ''MSU1''"
    by (simp add: charCodes_def)
  have "getUint32 ?big (DataView_of ?big 0) 4 True = Inr 1000000"
    by (simp add: getUint32_def DataView_of_def)
  then have b: "length (?big ! 0) = 16 \<and> take 4 (?big ! 0) = charCodes ''MSU1'' \<and>
      getUint32 ?big (DataView_of ?big 0) 4 True = Inr 1000000"
    by (simp add: charCodes_def)
  have "msuToRawPcm ?bad 0 False = Inl (MsuError ''Not an MSU1 file'')"
    using msuToRawPcm_rejects [of ?bad 0 False, THEN conjunct1] a by (rule mp)
  moreover have "msuToRawPcm ?big 0 False = Inl (MsuError
      ''Loop point (1000000) is larger than the number of samples in the file (4)'')"
    using msuToRawPcm_rejects [of ?big 0 False, THEN conjunct2] b by (rule mp)
  ultimately show ?thesis
    by (rule conjI)
qed

subsection \<open>The bytes of an MSU-1 file\<close>

text \<open>
  Claim C8. \<^verbatim>\<open>rawPcmToMsu\<close> of the samples \<open>[10, 20, 30, 40]\<close> with \<^verbatim>\<open>{ loop: 1 }\<close> is a new
  buffer of exactly 16 bytes: \<^verbatim>\<open>MSU1\<close>, then \<open>01 00 00 00\<close>, then
  \<open>0A 00 14 00 1E 00 28 00\<close>.
\<close>

theorem rawPcmToMsu_scenario:
  assumes "valid h pcm" and "elements platform h pcm = [10, 20, 30, 40]"
  shows "rawPcmToMsu platform h pcm None 1 =
           Inr (h @ [[0x4D, 0x53, 0x55, 0x31, 0x01, 0x00, 0x00, 0x00,
                      0x0A, 0x00, 0x14, 0x00, 0x1E, 0x00, 0x28, 0x00]], length h)"
proof -
  have "ToUint32 1 = 1"
    by (simp add: ToUint32_def ToInteger_def)
  then have "msuImage platform h pcm None 1 =
      [0x4D, 0x53, 0x55, 0x31, 0x01, 0x00, 0x00, 0x00,
       0x0A, 0x00, 0x14, 0x00, 0x1E, 0x00, 0x28, 0x00]"
    by (simp add: msuImage_def encodeFrom_elements assms(2) charCodes_def bytes32_def
        encode16_def bytes16_def)
  then show ?thesis
    using assms(1) by (simp add: rawPcmToMsu_None valid_def)
qed

theorem rawPcmToMsu_scenario_witness:
  "rawPcmToMsu True [[10, 0, 20, 0, 30, 0, 40, 0]]
     \<lparr>ta_buffer = 0, ta_byteOffset = 0, ta_length = 4\<rparr> None 1 =
   Inr ([[10, 0, 20, 0, 30, 0, 40, 0],
         [0x4D, 0x53, 0x55, 0x31, 0x01, 0x00, 0x00, 0x00,
          0x0A, 0x00, 0x14, 0x00, 0x1E, 0x00, 0x28, 0x00]], 1)"
proof -
  let ?h = "[[10, 0, 20, 0, 30, 0, 40, 0 :: byte]]"
  let ?p = "\<lparr>ta_buffer = 0, ta_byteOffset = 0, ta_length = 4\<rparr>"
  have v: "valid ?h ?p" by (simp add: valid_def)
  have e: "elements True ?h ?p = [10, 20, 30, 40]"
    by code_simp
  from rawPcmToMsu_scenario [OF v e] show ?thesis
    by simp
qed

text \<open>
  Claim C9. With an intro, \<^verbatim>\<open>rawPcmToMsu\<close> stores intro sample \<open>i\<close> big-endian: byte
  \<open>8 + 2 i\<close> of the output is its high byte (the sample divided by 256) and byte
  \<open>8 + 2 i + 1\<close> its low byte (the sample modulo 256). Sample \<open>j\<close> of the loop body is stored little-endian,
  low byte first, at its position after the intro.
\<close>

theorem rawPcmToMsu_byte_order:
  assumes "valid h pcm" and "valid h a"
  shows "\<exists>h' out. rawPcmToMsu platform h pcm (Some a) lp = Inr (h', out) \<and>
     (\<forall>i < ta_length a.
        unat (h' ! out ! (8 + 2 * i)) = unat (element platform h a i) div 256 \<and>
        unat (h' ! out ! (8 + 2 * i + 1)) = unat (element platform h a i) mod 256) \<and>
     (\<forall>j < ta_length pcm.
        unat (h' ! out ! (8 + 2 * ta_length a + 2 * j)) = unat (element platform h pcm j) mod 256 \<and>
        unat (h' ! out ! (8 + 2 * ta_length a + 2 * j + 1)) =
          unat (element platform h pcm j) div 256)"
proof -
  let ?img = "msuImage platform h pcm (Some a) lp"
  let ?hd = "charCodes ''MSU1'' @ bytes32 (ToUint32 (of_nat (ta_length a) / 2))"
  let ?A = "encodeFrom False platform h a 0 (ta_length a)"
  let ?P = "encodeFrom True platform h pcm 0 (ta_length pcm)"
  have enc: "rawPcmToMsu platform h pcm (Some a) lp = Inr (h @ [?img], length h)"
    using assms by (simp add: rawPcmToMsu_Some valid_def)
  have img: "?img = ?hd @ ?A @ ?P"
    by (simp add: msuImage_def)
  have hd: "length ?hd = 8"
    by simp
  have intro_bytes: "?img ! (8 + 2 * i) = ucast (drop_bit 8 (element platform h a i)) \<and>
      ?img ! (8 + 2 * i + 1) = ucast (element platform h a i)" if "i < ta_length a" for i
  proof -
    have "?img ! (8 + k) = ?A ! k" if "k < 2 * ta_length a" for k
      using that unfolding img by (simp add: nth_append)
    from this [of "2 * i"] this [of "2 * i + 1"] nth_encodeFrom [OF \<open>i < ta_length a\<close>, of False platform h a 0]
    show ?thesis using that
      by (simp add: encode16_def bytes16_def mult.commute add.assoc)
  qed
  have pcm_bytes: "?img ! (8 + 2 * ta_length a + 2 * j) = ucast (element platform h pcm j) \<and>
      ?img ! (8 + 2 * ta_length a + 2 * j + 1) = ucast (drop_bit 8 (element platform h pcm j))"
    if "j < ta_length pcm" for j
  proof -
    have "?img ! (8 + 2 * ta_length a + k) = ?P ! k" for k
      unfolding img by (simp add: nth_append)
    from this [of "2 * j"] this [of "2 * j + 1"] nth_encodeFrom [OF \<open>j < ta_length pcm\<close>, of True platform h pcm 0]
    show ?thesis
      by (simp add: encode16_def bytes16_def mult.commute add.assoc)
  qed
  have intro_values: "unat (?img ! (8 + 2 * i)) = unat (element platform h a i) div 256 \<and>
      unat (?img ! (8 + 2 * i + 1)) = unat (element platform h a i) mod 256"
    if "i < ta_length a" for i
    using intro_bytes [OF that] by (simp only: unat_high) (simp only: unat_low)
  have pcm_values:
    "unat (?img ! (8 + 2 * ta_length a + 2 * j)) = unat (element platform h pcm j) mod 256 \<and>
     unat (?img ! (8 + 2 * ta_length a + 2 * j + 1)) = unat (element platform h pcm j) div 256"
    if "j < ta_length pcm" for j
    using pcm_bytes [OF that] by (simp only: unat_high) (simp only: unat_low)
  show ?thesis
    using enc intro_values pcm_values
    by (intro exI [of _ "h @ [?img]"] exI [of _ "length h"]) simp
qed

theorem rawPcmToMsu_byte_order_witness:
  "valid [[10, 0, 20, 0], [1, 2, 0, 3]] \<lparr>ta_buffer = 0, ta_byteOffset = 0, ta_length = 2\<rparr> \<and>
   valid [[10, 0, 20, 0], [1, 2, 0, 3]] \<lparr>ta_buffer = 1, ta_byteOffset = 0, ta_length = 2\<rparr> \<and>
   (\<exists>h' out.
      rawPcmToMsu True [[10, 0, 20, 0], [1, 2, 0, 3]]
        \<lparr>ta_buffer = 0, ta_byteOffset = 0, ta_length = 2\<rparr>
        (Some \<lparr>ta_buffer = 1, ta_byteOffset = 0, ta_length = 2\<rparr>) 0 = Inr (h', out) \<and>
      unat (h' ! out ! 8) = 2 \<and> unat (h' ! out ! 9) = 1 \<and>
      unat (h' ! out ! 10) = 3 \<and> unat (h' ! out ! 11) = 0 \<and>
      unat (h' ! out ! 12) = 10 \<and> unat (h' ! out ! 13) = 0 \<and>
      unat (h' ! out ! 14) = 20 \<and> unat (h' ! out ! 15) = 0)"
proof -
  let ?h = "[[10, 0, 20, 0], [1, 2, 0, 3 :: byte]]"
  let ?p = "\<lparr>ta_buffer = 0, ta_byteOffset = 0, ta_length = 2\<rparr>"
  let ?a = "\<lparr>ta_buffer = 1, ta_byteOffset = 0, ta_length = 2\<rparr>"
  have vp: "valid ?h ?p" and va: "valid ?h ?a"
    by (simp_all add: valid_def)
  have a0: "element True ?h ?a 0 = 0x0201" and a1: "element True ?h ?a 1 = 0x0300"
    and p0: "element True ?h ?p 0 = 10" and p1: "element True ?h ?p 1 = 20"
    by code_simp+
  from rawPcmToMsu_byte_order [OF vp va, of True 0] obtain h' out where
    enc: "rawPcmToMsu True ?h ?p (Some ?a) 0 = Inr (h', out)"
    and i: "\<And>i. i < 2 \<Longrightarrow>
              unat (h' ! out ! (8 + 2 * i)) = unat (element True ?h ?a i) div 256 \<and>
              unat (h' ! out ! (8 + 2 * i + 1)) = unat (element True ?h ?a i) mod 256"
    and j: "\<And>j. j < 2 \<Longrightarrow>
              unat (h' ! out ! (8 + 2 * 2 + 2 * j)) = unat (element True ?h ?p j) mod 256 \<and>
              unat (h' ! out ! (8 + 2 * 2 + 2 * j + 1)) = unat (element True ?h ?p j) div 256"
    by auto
  from i [of 0] i [of 1] j [of 0] j [of 1] a0 a1 p0 p1
  have "unat (h' ! out ! 8) = 2 \<and> unat (h' ! out ! 9) = 1 \<and>
      unat (h' ! out ! 10) = 3 \<and> unat (h' ! out ! 11) = 0 \<and>
      unat (h' ! out ! 12) = 10 \<and> unat (h' ! out ! 13) = 0 \<and>
      unat (h' ! out ! 14) = 20 \<and> unat (h' ! out ! 15) = 0"
    by simp
  with enc vp va show ?thesis
    by blast
qed

subsection \<open>What the codec writes, and what it shares\<close>

lemma wavBufferToRawPcm_buffer:
  "wavBufferToRawPcm h b = Inr a \<Longrightarrow> ta_buffer a = b"
  by (auto simp add: wavBufferToRawPcm_def bind_def Uint16Array_new_buffer
      split: sum.splits option.splits if_splits)

lemma msuToRawPcm_buffer:
  "msuToRawPcm h b packLoop = Inr r \<Longrightarrow>
   ta_buffer (loop r) = b \<and> (\<forall>i. intro r = Some i \<longrightarrow> ta_buffer i = b)"
  by (auto simp add: msuToRawPcm_def bind_def Let_def Uint16Array_new_buffer
      split: sum.splits if_splits)

lemma assign_buffer:
  "ta_buffer a < length h \<Longrightarrow> i < ta_length a \<Longrightarrow>
   assign platform h a i v ! ta_buffer a =
     store (h ! ta_buffer a) (ta_byteOffset a + i * 2) (encode16 platform v)"
  by (simp add: assign_def encode16_def)

text \<open>
  Claim C10, as amended. No codec operation changes a buffer that exists when it is
  called. \<^verbatim>\<open>wavBufferToRawPcm\<close> and \<^verbatim>\<open>msuToRawPcm\<close> write nothing: they take the store and
  return a value, no store. \<^verbatim>\<open>rawPcmToMsu\<close> and \<^verbatim>\<open>rawPcmToWav\<close> always succeed, and the
  store they return is the one they were given with one new buffer after it, the buffer
  they return. The arrays that \<^verbatim>\<open>wavBufferToRawPcm\<close> and \<^verbatim>\<open>msuToRawPcm\<close> return are views
  of the input buffer, not copies; they are writable, as every typed array is: an
  assignment to an element of one is a store into the input buffer.
\<close>

theorem codec_frame:
  "(valid h pcm \<and> (\<forall>a. intr = Some a \<longrightarrow> valid h a) \<longrightarrow>
      (\<exists>bytes. rawPcmToMsu platform h pcm intr lp = Inr (h @ [bytes], length h))) \<and>
   (valid h pcm \<longrightarrow>
      (\<exists>bytes. rawPcmToWav platform h pcm = Inr (h @ [bytes], length h))) \<and>
   (wavBufferToRawPcm h b = Inr a \<longrightarrow> ta_buffer a = b) \<and>
   (msuToRawPcm h b packLoop = Inr r \<longrightarrow>
      ta_buffer (loop r) = b \<and> (\<forall>i. intro r = Some i \<longrightarrow> ta_buffer i = b)) \<and>
   (wavBufferToRawPcm h b = Inr a \<and> b < length h \<and> i < ta_length a \<longrightarrow>
      assign platform h a i v ! b =
        store (h ! b) (ta_byteOffset a + i * 2) (encode16 platform v)) \<and>
   (msuToRawPcm h b packLoop = Inr r \<and> b < length h \<and> i < ta_length (loop r) \<longrightarrow>
      assign platform h (loop r) i v ! b =
        store (h ! b) (ta_byteOffset (loop r) + i * 2) (encode16 platform v))"
proof -
  have msu: "valid h pcm \<and> (\<forall>a. intr = Some a \<longrightarrow> valid h a) \<longrightarrow>
      (\<exists>bytes. rawPcmToMsu platform h pcm intr lp = Inr (h @ [bytes], length h))"
    by (cases intr) (auto simp add: valid_def rawPcmToMsu_None rawPcmToMsu_Some)
  have wav: "valid h pcm \<longrightarrow>
      (\<exists>bytes. rawPcmToWav platform h pcm = Inr (h @ [bytes], length h))"
    by (simp add: valid_def rawPcmToWav_eq)
  have fromWav: "wavBufferToRawPcm h b = Inr a \<longrightarrow> ta_buffer a = b"
    by (simp add: wavBufferToRawPcm_buffer)
  have fromMsu: "msuToRawPcm h b packLoop = Inr r \<longrightarrow>
      ta_buffer (loop r) = b \<and> (\<forall>i. intro r = Some i \<longrightarrow> ta_buffer i = b)"
    using msuToRawPcm_buffer [of h b packLoop r] by (rule impI)
  have shared: "wavBufferToRawPcm h b = Inr a \<and> b < length h \<and> i < ta_length a \<longrightarrow>
      assign platform h a i v ! b =
        store (h ! b) (ta_byteOffset a + i * 2) (encode16 platform v)"
    using assign_buffer [of a h i platform v] wavBufferToRawPcm_buffer [of h b a] by auto
  have shared': "msuToRawPcm h b packLoop = Inr r \<and> b < length h \<and> i < ta_length (loop r) \<longrightarrow>
      assign platform h (loop r) i v ! b =
        store (h ! b) (ta_byteOffset (loop r) + i * 2) (encode16 platform v)"
    using assign_buffer [of "loop r" h i platform v] msuToRawPcm_buffer [of h b packLoop r] by auto
  from msu wav fromWav fromMsu shared shared' show ?thesis
    by (intro conjI) assumption+
qed

theorem codec_frame_witness:
  "(\<exists>bytes. rawPcmToMsu True [[10, 0, 20, 0, 30, 0, 40, 0], [1, 0, 2, 0]]
       \<lparr>ta_buffer = 0, ta_byteOffset = 0, ta_length = 4\<rparr>
       (Some \<lparr>ta_buffer = 1, ta_byteOffset = 0, ta_length = 2\<rparr>) 0 =
     Inr ([[10, 0, 20, 0, 30, 0, 40, 0], [1, 0, 2, 0]] @ [bytes], 2)) \<and>
   (\<exists>bytes. rawPcmToWav True [[10, 0, 20, 0, 30, 0, 40, 0], [1, 0, 2, 0]]
       \<lparr>ta_buffer = 0, ta_byteOffset = 0, ta_length = 4\<rparr> =
     Inr ([[10, 0, 20, 0, 30, 0, 40, 0], [1, 0, 2, 0]] @ [bytes], 2)) \<and>
   (\<exists>a. wavBufferToRawPcm [[0x52, 0x49, 0x46, 0x46, 44, 0, 0, 0, 0x57, 0x41, 0x56, 0x45,
       0x66, 0x6D, 0x74, 0x20, 16, 0, 0, 0,
       1, 0, 2, 0, 0x44, 0xAC, 0, 0, 0x10, 0xB1, 2, 0, 4, 0, 16, 0,
       0x64, 0x61, 0x74, 0x61, 8, 0, 0, 0,
       1, 0, 2, 0, 3, 0, 4, 0]] 0 = Inr a \<and> ta_buffer a = 0 \<and>
      assign True [[0x52, 0x49, 0x46, 0x46, 44, 0, 0, 0, 0x57, 0x41, 0x56, 0x45,
       0x66, 0x6D, 0x74, 0x20, 16, 0, 0, 0,
       1, 0, 2, 0, 0x44, 0xAC, 0, 0, 0x10, 0xB1, 2, 0, 4, 0, 16, 0,
       0x64, 0x61, 0x74, 0x61, 8, 0, 0, 0,
       1, 0, 2, 0, 3, 0, 4, 0]] a 0 0xFFFF ! 0 =
        store ([0x52, 0x49, 0x46, 0x46, 44, 0, 0, 0, 0x57, 0x41, 0x56, 0x45,
       0x66, 0x6D, 0x74, 0x20, 16, 0, 0, 0,
       1, 0, 2, 0, 0x44, 0xAC, 0, 0, 0x10, 0xB1, 2, 0, 4, 0, 16, 0,
       0x64, 0x61, 0x74, 0x61, 8, 0, 0, 0,
       1, 0, 2, 0, 3, 0, 4, 0]) (ta_byteOffset a + 0 * 2) (encode16 True 0xFFFF)) \<and>
   (\<exists>r. msuToRawPcm [[0x4D, 0x53, 0x55, 0x31, 1, 0, 0, 0, 10, 0, 20, 0, 30, 0, 40, 0]] 0 False = Inr r \<and>
      ta_buffer (loop r) = 0 \<and> map_option ta_buffer (intro r) = Some 0 \<and>
      assign True [[0x4D, 0x53, 0x55, 0x31, 1, 0, 0, 0, 10, 0, 20, 0, 30, 0, 40, 0]] (loop r) 0 0xFFFF ! 0 =
        store ([0x4D, 0x53, 0x55, 0x31, 1, 0, 0, 0, 10, 0, 20, 0, 30, 0, 40, 0]) (ta_byteOffset (loop r) + 0 * 2)
          (encode16 True 0xFFFF))"
proof -
  let ?h = "[[10, 0, 20, 0, 30, 0, 40, 0], [1, 0, 2, 0 :: byte]]"
  let ?p = "\<lparr>ta_buffer = 0, ta_byteOffset = 0, ta_length = 4\<rparr>"
  let ?i = "\<lparr>ta_buffer = 1, ta_byteOffset = 0, ta_length = 2\<rparr>"
  let ?w = "[[0x52, 0x49, 0x46, 0x46, 44, 0, 0, 0, 0x57, 0x41, 0x56, 0x45,
       0x66, 0x6D, 0x74, 0x20, 16, 0, 0, 0,
       1, 0, 2, 0, 0x44, 0xAC, 0, 0, 0x10, 0xB1, 2, 0, 4, 0, 16, 0,
       0x64, 0x61, 0x74, 0x61, 8, 0, 0, 0,
       1, 0, 2, 0, 3, 0, 4, 0] :: byte list]"
  let ?a = "\<lparr>ta_buffer = 0, ta_byteOffset = 44, ta_length = 4\<rparr>"
  let ?m = "[[0x4D, 0x53, 0x55, 0x31, 1, 0, 0, 0, 10, 0, 20, 0, 30, 0, 40, 0] :: byte list]"
  let ?r = "\<lparr>intro = Some \<lparr>ta_buffer = 0, ta_byteOffset = 8, ta_length = 1\<rparr>,
            loop = \<lparr>ta_buffer = 0, ta_byteOffset = 12, ta_length = 2\<rparr>,
            loopPoint = None\<rparr>"
  have valid: "valid ?h ?p \<and> (\<forall>a. Some ?i = Some a \<longrightarrow> valid ?h a)"
    by (simp add: valid_def)
  have msu: "\<exists>bytes. rawPcmToMsu True ?h ?p (Some ?i) 0 = Inr (?h @ [bytes], 2)"
    using codec_frame [where h = ?h and pcm = ?p and intr = "Some ?i" and platform = True and lp = 0,
        THEN conjunct1] valid
    by (simp add: numeral_2_eq_2)
  have wav: "\<exists>bytes. rawPcmToWav True ?h ?p = Inr (?h @ [bytes], 2)"
    using codec_frame [where h = ?h and pcm = ?p and platform = True, THEN conjunct2, THEN conjunct1] valid
    by (simp add: numeral_2_eq_2)
  have dec: "wavBufferToRawPcm ?w 0 = Inr ?a"
    by (rule wav_example)
  have "ta_buffer ?a = 0"
    using codec_frame [where h = ?w and b = 0 and a = ?a,
        THEN conjunct2, THEN conjunct2, THEN conjunct1] dec
    by (rule mp)
  moreover have "assign True ?w ?a 0 0xFFFF ! 0 =
      store (?w ! 0) (ta_byteOffset ?a + 0 * 2) (encode16 True 0xFFFF)"
    using codec_frame [where h = ?w and b = 0 and a = ?a and i = 0 and platform = True and v = "0xFFFF",
        THEN conjunct2, THEN conjunct2, THEN conjunct2, THEN conjunct2, THEN conjunct1] dec
    by simp
  ultimately have fromWav: "\<exists>a. wavBufferToRawPcm ?w 0 = Inr a \<and> ta_buffer a = 0 \<and>
      assign True ?w a 0 0xFFFF ! 0 =
        store (?w ! 0) (ta_byteOffset a + 0 * 2) (encode16 True 0xFFFF)"
    using dec by (intro exI [of _ ?a] conjI)
  have img: "?m ! 0 = charCodes ''MSU1'' @ bytes32 1 @ [10, 0, 20, 0, 30, 0, 40, 0]"
    by (simp add: charCodes_def bytes32_def)
  have split: "msuToRawPcm ?m 0 False = Inr ?r"
    unfolding msuToRawPcm_image [OF img]
    by (simp add: Uint16Array_new_def ToIndex_def ToInteger_def)
  have "ta_buffer (loop ?r) = 0 \<and> (\<forall>i. intro ?r = Some i \<longrightarrow> ta_buffer i = 0)"
    using codec_frame [where h = ?m and b = 0 and packLoop = False and r = ?r,
        THEN conjunct2, THEN conjunct2, THEN conjunct2, THEN conjunct1] split
    by (rule mp)
  moreover have "assign True ?m (loop ?r) 0 0xFFFF ! 0 =
      store (?m ! 0) (ta_byteOffset (loop ?r) + 0 * 2) (encode16 True 0xFFFF)"
    using codec_frame [where h = ?m and b = 0 and packLoop = False and r = ?r and i = 0
          and platform = True and v = "0xFFFF",
        THEN conjunct2, THEN conjunct2, THEN conjunct2, THEN conjunct2, THEN conjunct2] split
    by simp
  ultimately have fromMsu: "\<exists>r. msuToRawPcm ?m 0 False = Inr r \<and>
      ta_buffer (loop r) = 0 \<and> map_option ta_buffer (intro r) = Some 0 \<and>
      assign True ?m (loop r) 0 0xFFFF ! 0 =
        store (?m ! 0) (ta_byteOffset (loop r) + 0 * 2) (encode16 True 0xFFFF)"
    using split by (intro exI [of _ ?r]) simp
  from msu wav fromWav fromMsu show ?thesis
    by simp
qed

text \<open>
  The claim as stated calls the returned arrays read-only. They are not: on a 52-byte
  WAVE file, \<^verbatim>\<open>a = wavBufferToRawPcm(buffer)\<close> followed by \<^verbatim>\<open>a[0] = 0xFFFF\<close> changes bytes 44
  and 45 of the input buffer.
\<close>

theorem returned_view_counterexample:
  "wavBufferToRawPcm [[0x52, 0x49, 0x46, 0x46, 44, 0, 0, 0, 0x57, 0x41, 0x56, 0x45,
       0x66, 0x6D, 0x74, 0x20, 16, 0, 0, 0,
       1, 0, 2, 0, 0x44, 0xAC, 0, 0, 0x10, 0xB1, 2, 0, 4, 0, 16, 0,
       0x64, 0x61, 0x74, 0x61, 8, 0, 0, 0,
       1, 0, 2, 0, 3, 0, 4, 0]] 0 = Inr \<lparr>ta_buffer = 0, ta_byteOffset = 44, ta_length = 4\<rparr> \<and>
   assign True [[0x52, 0x49, 0x46, 0x46, 44, 0, 0, 0, 0x57, 0x41, 0x56, 0x45,
       0x66, 0x6D, 0x74, 0x20, 16, 0, 0, 0,
       1, 0, 2, 0, 0x44, 0xAC, 0, 0, 0x10, 0xB1, 2, 0, 4, 0, 16, 0,
       0x64, 0x61, 0x74, 0x61, 8, 0, 0, 0,
       1, 0, 2, 0, 3, 0, 4, 0]] \<lparr>ta_buffer = 0, ta_byteOffset = 44, ta_length = 4\<rparr> 0 0xFFFF =
     [[0x52, 0x49, 0x46, 0x46, 44, 0, 0, 0, 0x57, 0x41, 0x56, 0x45,
       0x66, 0x6D, 0x74, 0x20, 16, 0, 0, 0,
       1, 0, 2, 0, 0x44, 0xAC, 0, 0, 0x10, 0xB1, 2, 0, 4, 0, 16, 0,
       0x64, 0x61, 0x74, 0x61, 8, 0, 0, 0,
       0xFF, 0xFF, 2, 0, 3, 0, 4, 0]] \<and>
   [[0x52, 0x49, 0x46, 0x46, 44, 0, 0, 0, 0x57, 0x41, 0x56, 0x45,
       0x66, 0x6D, 0x74, 0x20, 16, 0, 0, 0,
       1, 0, 2, 0, 0x44, 0xAC, 0, 0, 0x10, 0xB1, 2, 0, 4, 0, 16, 0,
       0x64, 0x61, 0x74, 0x61, 8, 0, 0, 0,
       0xFF, 0xFF, 2, 0, 3, 0, 4, 0] :: byte list] \<noteq> [[0x52, 0x49, 0x46, 0x46, 44, 0, 0, 0, 0x57, 0x41, 0x56, 0x45,
       0x66, 0x6D, 0x74, 0x20, 16, 0, 0, 0,
       1, 0, 2, 0, 0x44, 0xAC, 0, 0, 0x10, 0xB1, 2, 0, 4, 0, 16, 0,
       0x64, 0x61, 0x74, 0x61, 8, 0, 0, 0,
       1, 0, 2, 0, 3, 0, 4, 0]]"
proof -
  have "assign True [[0x52, 0x49, 0x46, 0x46, 44, 0, 0, 0, 0x57, 0x41, 0x56, 0x45,
       0x66, 0x6D, 0x74, 0x20, 16, 0, 0, 0,
       1, 0, 2, 0, 0x44, 0xAC, 0, 0, 0x10, 0xB1, 2, 0, 4, 0, 16, 0,
       0x64, 0x61, 0x74, 0x61, 8, 0, 0, 0,
       1, 0, 2, 0, 3, 0, 4, 0]] \<lparr>ta_buffer = 0, ta_byteOffset = 44, ta_length = 4\<rparr> 0 0xFFFF =
     [[0x52, 0x49, 0x46, 0x46, 44, 0, 0, 0, 0x57, 0x41, 0x56, 0x45,
       0x66, 0x6D, 0x74, 0x20, 16, 0, 0, 0,
       1, 0, 2, 0, 0x44, 0xAC, 0, 0, 0x10, 0xB1, 2, 0, 4, 0, 16, 0,
       0x64, 0x61, 0x74, 0x61, 8, 0, 0, 0,
       0xFF, 0xFF, 2, 0, 3, 0, 4, 0]]"
    by code_simp
  moreover have "[[0x52, 0x49, 0x46, 0x46, 44, 0, 0, 0, 0x57, 0x41, 0x56, 0x45,
       0x66, 0x6D, 0x74, 0x20, 16, 0, 0, 0,
       1, 0, 2, 0, 0x44, 0xAC, 0, 0, 0x10, 0xB1, 2, 0, 4, 0, 16, 0,
       0x64, 0x61, 0x74, 0x61, 8, 0, 0, 0,
       0xFF, 0xFF, 2, 0, 3, 0, 4, 0] :: byte list] \<noteq> [[0x52, 0x49, 0x46, 0x46, 44, 0, 0, 0, 0x57, 0x41, 0x56, 0x45,
       0x66, 0x6D, 0x74, 0x20, 16, 0, 0, 0,
       1, 0, 2, 0, 0x44, 0xAC, 0, 0, 0x10, 0xB1, 2, 0, 4, 0, 16, 0,
       0x64, 0x61, 0x74, 0x61, 8, 0, 0, 0,
       1, 0, 2, 0, 3, 0, 4, 0]]"
    by simp
  ultimately show ?thesis
    using wav_example by (intro conjI)
qed

end
